theory Spec2Isabelle
  imports Complex_Main "HOL-Library.Word" "HOL-Library.Signed_Division" "HOL-Library.Log_Nat"
    "HOL-Library.Multiset"
begin

section \<open>Machine integers\<close>

text \<open>
  The C type \<open>int\<close> is 32 bits wide and \<open>unsigned int\<close> (the components of CUDA's
  \<open>threadIdx\<close>, \<open>blockIdx\<close>, \<open>blockDim\<close>, \<open>gridDim\<close>) is 32 bits wide. Values are kept
  as \<open>int\<close> and the wrap-around is written out: \<open>s32\<close> reduces a result to the
  two's-complement range, \<open>u32\<close> to the unsigned range. \<open>/\<close> and \<open>%\<close> of C truncate
  towards zero: \<open>sdiv\<close> and \<open>smod\<close>.
\<close>

definition s32 :: "int \<Rightarrow> int" where
  "s32 x = (x + 2147483648) mod 4294967296 - 2147483648"

definition u32 :: "int \<Rightarrow> int" where
  "u32 x = x mod 4294967296"

type_synonym byte = "8 word"

section \<open>Binary floating point\<close>

text \<open>
  A floating-point datum is a signed zero or a finite number \<open>(-1)\<^sup>s * m * 2\<^sup>e\<close>, an
  infinity, or a NaN. Finite data are kept with an odd significand (zero as
  \<open>Finite s 0 0\<close>), so that equal data are equal terms: every finite bit pattern of a
  format has exactly one such form. The flag is \<open>True\<close> for a negative sign.
\<close>

datatype float = Finite bool nat int | Infinity bool | NaN

text \<open>
  A format has \<open>prec\<close> significand bits, a least exponent \<open>emin\<close> of the unit in the last
  place (subnormal numbers are the multiples of \<open>2\<^sup>e\<^sup>m\<^sup>i\<^sup>n\<close>), and finite magnitudes
  below \<open>2\<^sup>e\<^sup>t\<^sup>o\<^sup>p\<close>.
\<close>

record format =
  prec :: nat
  emin :: int
  etop :: int

definition binary32 :: format where
  "binary32 = \<lparr>prec = 24, emin = -149, etop = 128\<rparr>"

definition binary64 :: format where
  "binary64 = \<lparr>prec = 53, emin = -1074, etop = 1024\<rparr>"

fun normal :: "nat \<Rightarrow> int \<Rightarrow> nat \<times> int" where
  "normal m e = (if m = 0 then (0, 0) else if even m then normal (m div 2) (e + 1) else (m, e))"

declare normal.simps [simp del]

text \<open>
  Rounding to nearest, ties to even, of the exact magnitude \<open>m * 2\<^sup>e\<close>: the \<open>k\<close> low bits
  that the format cannot hold are dropped, the quotient goes up when the dropped part is
  above one half, or is one half and the quotient is odd; a result of magnitude
  \<open>2\<^sup>e\<^sup>t\<^sup>o\<^sup>p\<close> or more is an infinity.
\<close>

definition round_sig :: "format \<Rightarrow> nat \<Rightarrow> int \<Rightarrow> nat \<times> int" where
  "round_sig fmt m e =
     (let k = max (bitlen (int m) - int (prec fmt)) (emin fmt - e)
      in if k \<le> 0 then normal m e
         else let d = 2 ^ nat k; q = m div d; r = m mod d
              in normal (if d < 2 * r \<or> (2 * r = d \<and> odd q) then q + 1 else q) (e + k))"

definition fround :: "format \<Rightarrow> bool \<Rightarrow> nat \<Rightarrow> int \<Rightarrow> float" where
  "fround fmt s m e =
     (let me = round_sig fmt m e
      in if etop fmt < bitlen (int (fst me)) + snd me then Infinity s else Finite s (fst me) (snd me))"

fun fadd :: "format \<Rightarrow> float \<Rightarrow> float \<Rightarrow> float" where
  "fadd fmt (Finite s1 m1 e1) (Finite s2 m2 e2) =
     (let e = min e1 e2;
          a = (if s1 then - 1 else 1) * int m1 * 2 ^ nat (e1 - e)
            + (if s2 then - 1 else 1) * int m2 * 2 ^ nat (e2 - e)
      in if a = 0 then Finite (s1 \<and> s2) 0 0 else fround fmt (a < 0) (nat \<bar>a\<bar>) e)"
| "fadd fmt (Finite s1 m1 e1) (Infinity s2) = Infinity s2"
| "fadd fmt (Infinity s1) (Finite s2 m2 e2) = Infinity s1"
| "fadd fmt (Infinity s1) (Infinity s2) = (if s1 = s2 then Infinity s1 else NaN)"
| "fadd fmt NaN y = NaN"
| "fadd fmt x NaN = NaN"

fun fmul :: "format \<Rightarrow> float \<Rightarrow> float \<Rightarrow> float" where
  "fmul fmt (Finite s1 m1 e1) (Finite s2 m2 e2) = fround fmt (s1 \<noteq> s2) (m1 * m2) (e1 + e2)"
| "fmul fmt (Finite s1 m1 e1) (Infinity s2) = (if m1 = 0 then NaN else Infinity (s1 \<noteq> s2))"
| "fmul fmt (Infinity s1) (Finite s2 m2 e2) = (if m2 = 0 then NaN else Infinity (s1 \<noteq> s2))"
| "fmul fmt (Infinity s1) (Infinity s2) = Infinity (s1 \<noteq> s2)"
| "fmul fmt NaN y = NaN"
| "fmul fmt x NaN = NaN"

text \<open>The integer square root, two bits at a time.\<close>

fun isqrt :: "nat \<Rightarrow> nat" where
  "isqrt n = (if n < 2 then n
              else let r = 2 * isqrt (n div 4) in if (r + 1) * (r + 1) \<le> n then r + 1 else r)"

declare isqrt.simps [simp del]

text \<open>
  The correctly rounded square root: the significand is scaled so that its integer root
  has two bits more than the format holds, and a last bit records whether the root was
  inexact, so that the rounding sees on which side of a tie the root lies.
\<close>

fun fsqrt :: "format \<Rightarrow> float \<Rightarrow> float" where
  "fsqrt fmt (Finite s m e) =
     (if m = 0 then Finite s 0 0
      else if s then NaN
      else let sh = 2 * int (prec fmt) + 2 + e mod 2;
               M = m * 2 ^ nat sh;
               r = isqrt M
           in fround fmt False (2 * r + (if r * r = M then 0 else 1)) ((e - sh) div 2 - 1))"
| "fsqrt fmt (Infinity s) = (if s then NaN else Infinity False)"
| "fsqrt fmt NaN = NaN"

text \<open>Conversion between formats (\<open>(float)x\<close>, \<open>(double)x\<close>) rounds to the target.\<close>

fun fcvt :: "format \<Rightarrow> float \<Rightarrow> float" where
  "fcvt fmt (Finite s m e) = fround fmt s m e"
| "fcvt fmt (Infinity s) = Infinity s"
| "fcvt fmt NaN = NaN"

text \<open>
  A decimal literal \<open>n / d\<close> is read as the nearest datum of the format: the quotient is
  taken with two bits more than the format holds and a last bit for a non-zero
  remainder.
\<close>

definition fliteral :: "format \<Rightarrow> nat \<Rightarrow> nat \<Rightarrow> float" where
  "fliteral fmt n d =
     (let sh = prec fmt + 2 + nat (bitlen (int d));
          q = (n * 2 ^ sh) div d
      in fround fmt False (2 * q + (if (n * 2 ^ sh) mod d = 0 then 0 else 1)) (- int sh - 1))"

definition float_of_byte :: "byte \<Rightarrow> float" where
  "float_of_byte b = fround binary32 False (unat b) 0"

text \<open>
  \<open>(unsigned char)x\<close> of a double: the value is truncated towards zero and the low eight
  bits are kept. (C leaves the conversion undefined when the truncated value is not a
  byte; the low eight bits are what the conversion through a 32-bit integer register
  gives while the value fits that register.)
\<close>

fun ftrunc :: "float \<Rightarrow> int" where
  "ftrunc (Finite s m e) =
     (let t = (if 0 \<le> e then int m * 2 ^ nat e else int m div 2 ^ nat (- e))
      in if s then - t else t)"
| "ftrunc (Infinity s) = 0"
| "ftrunc NaN = 0"

definition byte_of_double :: "float \<Rightarrow> byte" where
  "byte_of_double x = word_of_int (ftrunc x)"

text \<open>
  The value of a finite datum, and the data of a format: the zeros, the finite numbers
  whose significand and exponent the format holds, the infinities and NaN.
\<close>

fun valof :: "float \<Rightarrow> real" where
  "valof (Finite s m e) =
     (if s then - 1 else 1) * (if 0 \<le> e then real (m * 2 ^ nat e) else real m / 2 ^ nat (- e))"
| "valof (Infinity s) = 0"
| "valof NaN = 0"

fun is_float :: "format \<Rightarrow> float \<Rightarrow> bool" where
  "is_float fmt (Finite s m e) =
     ((m = 0 \<and> e = 0) \<or>
      (odd m \<and> m < 2 ^ prec fmt \<and> emin fmt \<le> e \<and> bitlen (int m) + e \<le> etop fmt))"
| "is_float fmt (Infinity s) = True"
| "is_float fmt NaN = True"

section \<open>Image buffers\<close>

text \<open>
  A buffer is a flat sequence addressed by \<open>row * cols + col\<close>. A read or a write
  outside the buffer is undefined behaviour in C: it is the result \<open>None\<close> here.
\<close>

definition read_at :: "'a list \<Rightarrow> int \<Rightarrow> 'a option" where
  "read_at xs k = (if 0 \<le> k \<and> k < int (length xs) then Some (xs ! nat k) else None)"

definition write_at :: "'a list \<Rightarrow> int \<Rightarrow> 'a \<Rightarrow> 'a list option" where
  "write_at xs k v = (if 0 \<le> k \<and> k < int (length xs) then Some (xs[nat k := v]) else None)"

section \<open>The stencil evaluator\<close>

text \<open>
  The two nested loops \<open>for (y = -1; y <= 1; y++) for (x = -1; x <= 1; x++)\<close> over an
  accumulator; a body that faults ends the computation.
\<close>

definition stencil_loop :: "(int \<Rightarrow> int \<Rightarrow> 'a \<Rightarrow> 'a option) \<Rightarrow> 'a \<Rightarrow> 'a option" where
  "stencil_loop body t0 =
     foldl (\<lambda>acc y. foldl (\<lambda>acc x. Option.bind acc (body y x)) acc [- 1, 0, 1]) (Some t0) [- 1, 0, 1]"

text \<open>
  The loop body of \<open>conv_harness_cpu.cpp\<close>: \<open>t += g[(y + 1) * 3 + (x + 1)] * s[neighbor_index]\<close>
  under the bounds check. The products and sums are \<open>float\<close> operations.
\<close>

definition tap :: "float list \<Rightarrow> int \<Rightarrow> int \<Rightarrow> int \<Rightarrow> int \<Rightarrow> float list \<Rightarrow> int \<Rightarrow> int \<Rightarrow> float \<Rightarrow> float option" where
  "tap s i j ncols nrows g y x t =
     (let neighbor_i = s32 (i + y); neighbor_j = s32 (j + x)
      in if neighbor_i \<ge> 0 \<and> neighbor_i < nrows \<and> neighbor_j \<ge> 0 \<and> neighbor_j < ncols then
           (let neighbor_index = s32 (s32 (neighbor_i * ncols) + neighbor_j)
            in case read_at g ((y + 1) * 3 + (x + 1)) of
                 None \<Rightarrow> None
               | Some w \<Rightarrow>
                   (case read_at s neighbor_index of
                      None \<Rightarrow> None
                    | Some v \<Rightarrow> Some (fadd binary32 t (fmul binary32 w v))))
         else Some t)"

text \<open>\<open>sobel_filtered_pixel\<close> of \<open>conv_harness_cpu.cpp\<close>: one loop nest for each kernel.\<close>

definition sobel_filtered_pixel :: "float list \<Rightarrow> int \<Rightarrow> int \<Rightarrow> int \<Rightarrow> int \<Rightarrow> float list \<Rightarrow> float list \<Rightarrow> float option" where
  "sobel_filtered_pixel s i j ncols nrows gx gy =
     (case stencil_loop (tap s i j ncols nrows gx) (Finite False 0 0) of
        None \<Rightarrow> None
      | Some t \<Rightarrow>
          (case stencil_loop (tap s i j ncols nrows gy) (Finite False 0 0) of
             None \<Rightarrow> None
           | Some ty \<Rightarrow>
               Some (fsqrt binary32 (fadd binary32 (fmul binary32 t t) (fmul binary32 ty ty)))))"

text \<open>The loop body of \<open>sobel_gpu.cu\<close>: both sums in one loop nest.\<close>

definition tap_gpu :: "float list \<Rightarrow> int \<Rightarrow> int \<Rightarrow> int \<Rightarrow> int \<Rightarrow> float list \<Rightarrow> float list \<Rightarrow> int \<Rightarrow> int \<Rightarrow> float \<times> float \<Rightarrow> (float \<times> float) option" where
  "tap_gpu s i j ncols nrows gx gy y x G =
     (let neighbor_i = s32 (i + y); neighbor_j = s32 (j + x)
      in if neighbor_i \<ge> 0 \<and> neighbor_i < nrows \<and> neighbor_j \<ge> 0 \<and> neighbor_j < ncols then
           (let neighbor_index = s32 (s32 (neighbor_i * ncols) + neighbor_j)
            in case read_at gx ((y + 1) * 3 + (x + 1)) of
                 None \<Rightarrow> None
               | Some wx \<Rightarrow>
                   (case read_at s neighbor_index of
                      None \<Rightarrow> None
                    | Some v \<Rightarrow>
                        (case read_at gy ((y + 1) * 3 + (x + 1)) of
                           None \<Rightarrow> None
                         | Some wy \<Rightarrow>
                             Some (fadd binary32 (fst G) (fmul binary32 wx v),
                                   fadd binary32 (snd G) (fmul binary32 wy v)))))
         else Some G)"

definition sobel_filtered_pixel_gpu :: "float list \<Rightarrow> int \<Rightarrow> int \<Rightarrow> int \<Rightarrow> int \<Rightarrow> float list \<Rightarrow> float list \<Rightarrow> float option" where
  "sobel_filtered_pixel_gpu s i j ncols nrows gx gy =
     (case stencil_loop (tap_gpu s i j ncols nrows gx gy) (Finite False 0 0, Finite False 0 0) of
        None \<Rightarrow> None
      | Some G \<Rightarrow>
          Some (fsqrt binary32 (fadd binary32 (fmul binary32 (fst G) (fst G))
                                              (fmul binary32 (snd G) (snd G)))))"

text \<open>The kernel weights, the same constants in both programs.\<close>

definition Gx :: "float list" where
  "Gx = [Finite False 1 0, Finite False 0 0, Finite True 1 0,
         Finite False 1 1, Finite False 0 0, Finite True 1 1,
         Finite False 1 0, Finite False 0 0, Finite True 1 0]"

definition Gy :: "float list" where
  "Gy = [Finite False 1 0, Finite False 1 1, Finite False 1 0,
         Finite False 0 0, Finite False 0 0, Finite False 0 0,
         Finite True 1 0, Finite True 1 1, Finite True 1 0]"

section \<open>The CPU sweep\<close>

text \<open>
  The inner loop of \<open>do_sobel_filtering\<close> over the columns \<open>js\<close> of row \<open>i\<close>, and the
  outer loop over rows. \<open>#pragma omp parallel for\<close> hands the iterations of the outer
  loop to the threads of the team, each iteration to exactly one thread: the sweep takes
  the order \<open>rs\<close> in which the row iterations are carried out, a rearrangement of
  \<open>0, 1, \<dots>, nrows - 1\<close> that depends on the number of threads and on the schedule.
\<close>

fun sobel_cols :: "float list \<Rightarrow> int \<Rightarrow> int \<Rightarrow> int \<Rightarrow> int list \<Rightarrow> float list \<Rightarrow> float list option" where
  "sobel_cols inp ncols nrows i [] out = Some out"
| "sobel_cols inp ncols nrows i (j # js) out =
     (case sobel_filtered_pixel inp i j ncols nrows Gx Gy of
        None \<Rightarrow> None
      | Some g \<Rightarrow>
          (case write_at out (s32 (s32 (i * ncols) + j)) g of
             None \<Rightarrow> None
           | Some out' \<Rightarrow> sobel_cols inp ncols nrows i js out'))"

fun sobel_rows :: "float list \<Rightarrow> int \<Rightarrow> int \<Rightarrow> int list \<Rightarrow> float list \<Rightarrow> float list option" where
  "sobel_rows inp ncols nrows [] out = Some out"
| "sobel_rows inp ncols nrows (i # rs) out =
     (case sobel_cols inp ncols nrows i [0..ncols - 1] out of
        None \<Rightarrow> None
      | Some out' \<Rightarrow> sobel_rows inp ncols nrows rs out')"

definition do_sobel_filtering :: "int list \<Rightarrow> float list \<Rightarrow> float list \<Rightarrow> int \<Rightarrow> int \<Rightarrow> float list option" where
  "do_sobel_filtering rs inp out ncols nrows = sobel_rows inp ncols nrows rs out"

section \<open>The GPU kernel\<close>

text \<open>
  The grid-stride loop of one execution unit. The state is the destination buffer and
  the record of the visits made so far, each a linear index with the row and column
  handed to the evaluator. The loop may run forever: no result is \<open>None\<close>, as is a fault.
\<close>

type_synonym visit = "int \<times> int \<times> int"

partial_function (option) kernel_loop ::
  "float list \<Rightarrow> int \<Rightarrow> int \<Rightarrow> int \<Rightarrow> float list \<Rightarrow> float list \<Rightarrow> int \<Rightarrow>
   float list \<times> visit list \<Rightarrow> int \<Rightarrow> (float list \<times> visit list) option" where
  "kernel_loop s n nrows ncols gx gy stride st idx =
     (if idx < n then
        (if ncols = 0 then None
         else
           (let i = s32 (idx sdiv ncols); j = s32 (idx smod ncols);
                output_index = s32 (s32 (i * ncols) + j)
            in case sobel_filtered_pixel_gpu s i j ncols nrows gx gy of
                 None \<Rightarrow> None
               | Some g \<Rightarrow>
                   (case write_at (fst st) output_index g of
                      None \<Rightarrow> None
                    | Some d' \<Rightarrow>
                        kernel_loop s n nrows ncols gx gy stride
                          (d', snd st @ [(idx, i, j)]) (s32 (idx + stride)))))
      else Some st)"

text \<open>
  \<open>sobel_kernel_gpu\<close> for the unit \<open>threadIdx.x = tid\<close>, \<open>blockIdx.x = bid\<close> of a launch with
  \<open>blockDim.x = bdim\<close> and \<open>gridDim.x = gdim\<close>; these are \<open>unsigned int\<close>, the index and the
  stride are \<open>int\<close>.
\<close>

definition sobel_kernel_gpu ::
  "float list \<Rightarrow> int \<Rightarrow> int \<Rightarrow> int \<Rightarrow> float list \<Rightarrow> float list \<Rightarrow>
   int \<Rightarrow> int \<Rightarrow> int \<Rightarrow> int \<Rightarrow> float list \<times> visit list \<Rightarrow> (float list \<times> visit list) option" where
  "sobel_kernel_gpu s n nrows ncols gx gy tid bid bdim gdim st =
     (let idx = s32 (u32 (tid + u32 (bid * bdim)));
          stride = s32 (u32 (bdim * gdim))
      in kernel_loop s n nrows ncols gx gy stride st idx)"

text \<open>
  A launch \<open><<<blocks, threadsPerBlock>>>\<close> runs the kernel once for every unit
  \<open>(bid, tid)\<close> of the grid. The units write disjoint places and read only the source, so
  a launch is taken as the units run one after the other, in the order \<open>us\<close>.
\<close>

definition grid_units :: "int \<Rightarrow> int \<Rightarrow> (int \<times> int) list" where
  "grid_units blocks tpb = concat (map (\<lambda>b. map (\<lambda>t. (b, t)) [0..tpb - 1]) [0..blocks - 1])"

fun launch_units ::
  "float list \<Rightarrow> int \<Rightarrow> int \<Rightarrow> int \<Rightarrow> float list \<Rightarrow> float list \<Rightarrow> int \<Rightarrow> int \<Rightarrow>
   (int \<times> int) list \<Rightarrow> float list \<times> visit list \<Rightarrow> (float list \<times> visit list) option" where
  "launch_units s n nrows ncols gx gy blocks tpb [] st = Some st"
| "launch_units s n nrows ncols gx gy blocks tpb (u # us) st =
     (case sobel_kernel_gpu s n nrows ncols gx gy (snd u) (fst u) tpb blocks st of
        None \<Rightarrow> None
      | Some st' \<Rightarrow> launch_units s n nrows ncols gx gy blocks tpb us st')"

definition launch ::
  "int \<Rightarrow> int \<Rightarrow> float list \<Rightarrow> float list \<Rightarrow> int \<Rightarrow> int \<Rightarrow> int \<Rightarrow> float list \<Rightarrow> float list \<Rightarrow>
   (float list \<times> visit list) option" where
  "launch blocks tpb s d n nrows ncols gx gy =
     launch_units s n nrows ncols gx gy blocks tpb (grid_units blocks tpb) (d, [])"

section \<open>The evaluator in the words of its description\<close>

text \<open>
  The nine offsets of the neighbourhood in the order of the loop nest, those whose
  neighbour lies in the image, and the sum of the weighted samples over a list of
  offsets, accumulated in that order.
\<close>

definition offsets9 :: "(int \<times> int) list" where
  "offsets9 = [(- 1, - 1), (- 1, 0), (- 1, 1), (0, - 1), (0, 0), (0, 1), (1, - 1), (1, 0), (1, 1)]"

definition contributing :: "int \<Rightarrow> int \<Rightarrow> int \<Rightarrow> int \<Rightarrow> (int \<times> int) list" where
  "contributing row col rows cols =
     filter (\<lambda>(dy, dx). 0 \<le> row + dy \<and> row + dy < rows \<and> 0 \<le> col + dx \<and> col + dx < cols) offsets9"

definition weighted_sum :: "float list \<Rightarrow> float list \<Rightarrow> int \<Rightarrow> int \<Rightarrow> int \<Rightarrow> float \<Rightarrow> (int \<times> int) list \<Rightarrow> float" where
  "weighted_sum g s row col cols t0 os =
     foldl (\<lambda>t (dy, dx). fadd binary32 t
              (fmul binary32 (g ! nat ((dy + 1) * 3 + (dx + 1))) (s ! nat ((row + dy) * cols + (col + dx)))))
       t0 os"

text \<open>Both of two results, when neither computation faulted.\<close>

definition both :: "'a option \<Rightarrow> 'b option \<Rightarrow> ('a \<times> 'b) option" where
  "both a b = (case a of None \<Rightarrow> None | Some x \<Rightarrow> (case b of None \<Rightarrow> None | Some y \<Rightarrow> Some (x, y)))"

section \<open>Reference results\<close>

text \<open>
  The image that holds at every place \<open>row * cols + col\<close> the value of the evaluator at
  \<open>(row, col)\<close>.
\<close>

definition sobel_image :: "float list \<Rightarrow> int \<Rightarrow> int \<Rightarrow> float list \<Rightarrow> float list \<Rightarrow> float list" where
  "sobel_image s ncols nrows gx gy =
     map (\<lambda>k. the (sobel_filtered_pixel s (int k div ncols) (int k mod ncols) ncols nrows gx gy))
       [0..<nat (nrows * ncols)]"

text \<open>
  The indices \<open>idx, idx + stride, idx + 2 * stride, \<dots>\<close> below \<open>n\<close>, the visit that belongs
  to an index, and a buffer after the pixels of a list of indices have been stored.
\<close>

function stride_indices :: "int \<Rightarrow> int \<Rightarrow> int \<Rightarrow> int list" where
  "stride_indices n stride idx =
     (if idx < n \<and> 0 < stride then idx # stride_indices n stride (idx + stride) else [])"
  by pat_completeness auto
termination
  by (relation "measure (\<lambda>(n, stride, idx). nat (n - idx))") auto

declare stride_indices.simps [simp del]

definition visit_of :: "int \<Rightarrow> int \<Rightarrow> visit" where
  "visit_of ncols k = (k, k div ncols, k mod ncols)"

definition store_pixels :: "float list \<Rightarrow> float list \<Rightarrow> int list \<Rightarrow> float list" where
  "store_pixels img d ks = foldl (\<lambda>d k. d[nat k := img ! nat k]) d ks"

text \<open>
  The linear number \<open>threadIdx.x + blockIdx.x * blockDim.x\<close> of the unit
  \<open>u = (blockIdx.x, threadIdx.x)\<close> and the indices that fall to it.
\<close>

definition unit_id :: "int \<Rightarrow> int \<times> int \<Rightarrow> int" where
  "unit_id tpb u = snd u + fst u * tpb"

definition unit_indices :: "int \<Rightarrow> int \<Rightarrow> int \<Rightarrow> int \<times> int \<Rightarrow> int list" where
  "unit_indices n blocks tpb u = stride_indices n (tpb * blocks) (unit_id tpb u)"

section \<open>The drivers\<close>

text \<open>
  The CPU driver sweeps the image once for each thread count, every sweep into the same
  destination buffer.
\<close>

fun sweeps :: "int list list \<Rightarrow> float list \<Rightarrow> float list \<Rightarrow> int \<Rightarrow> int \<Rightarrow> float list option" where
  "sweeps [] inp out ncols nrows = Some out"
| "sweeps (rs # rss) inp out ncols nrows =
     (case do_sobel_filtering rs inp out ncols nrows of
        None \<Rightarrow> None
      | Some out' \<Rightarrow> sweeps rss inp out' ncols nrows)"

text \<open>
  The file names fixed in both programs, the constant \<open>ONE_OVER_255\<close> (a \<open>double\<close>), and
  the two conversions of the drivers: \<open>(float)b * ONE_OVER_255\<close> is a product of doubles
  stored to a \<open>float\<close>; \<open>(unsigned char)(g * 255.0)\<close> is a product of doubles cut to a byte.
\<close>

definition input_fname :: string where
  "input_fname = ''../data/zebra-gray-int8-4x''"

definition output_fname :: string where
  "output_fname = ''../data/processed-raw-int8-4x-cpu.dat''"

definition ONE_OVER_255 :: float where
  "ONE_OVER_255 = fliteral binary64 3921568627451 1000000000000000"

definition byte_to_float :: "byte \<Rightarrow> float" where
  "byte_to_float b = fcvt binary32 (fmul binary64 (fcvt binary64 (float_of_byte b)) ONE_OVER_255)"

definition float_to_byte :: "float \<Rightarrow> byte" where
  "float_to_byte g = byte_of_double (fmul binary64 (fcvt binary64 g) (Finite False 255 0))"

definition newline :: string where
  "newline = [CHR 0x0A]"

text \<open>
  What a run prints, and how it ends: it returns an exit code, with what it printed and
  what it stored in the output file, or it runs into undefined behaviour (\<open>Crash\<close>), as
  when a null \<open>FILE *\<close> is handed to \<open>fread\<close> or \<open>fwrite\<close>. The elapsed time in the line
  printed after each sweep depends on the clock and is left out.
\<close>

datatype arg = Str string | Num int

datatype message = Printf string "arg list" | Cout_threads int | GPUassert int

datatype outcome = Exit int "message list" "byte list option" | Crash "message list"

text \<open>
  What a run finds: the bytes of the input file (\<open>None\<close> when it cannot be opened),
  whether the output file can be opened and how many bytes it takes, what \<open>malloc\<close> left
  in the output buffer, the order in which the OpenMP runtime carries out the row
  iterations for a thread count, and the status returned by each CUDA call that
  \<open>gpuErrchk\<close> checks (the four allocations, then the synchronization; 0 is success).
  The dimensions are parameters; the programs fix them to 7112 columns and 5146 rows.
  The limits of a device on the launch shape are not modelled.
\<close>

record env =
  input_file :: "byte list option"
  output_open :: bool
  output_room :: nat
  heap :: "nat \<Rightarrow> float"
  row_order :: "int \<Rightarrow> int list"
  cuda_status :: "nat \<Rightarrow> int"

definition thread_counts :: "int list" where
  "thread_counts = [1, 2, 4, 8, 16]"

definition write_output :: "env \<Rightarrow> message list \<Rightarrow> int \<Rightarrow> float list \<Rightarrow> outcome" where
  "write_output E msgs nvalues out_data_floats =
     (let out_data_bytes = map float_to_byte out_data_floats
      in if \<not> output_open E then Crash msgs
         else if min (nat nvalues) (output_room E) \<noteq> nat nvalues then
           Exit 1 (msgs @ [Printf (''Error writing output file. '' @ newline) []])
             (Some (take (output_room E) out_data_bytes))
         else
           Exit 0 (msgs @ [Printf ('' Wrote the output file %s '' @ newline) [Str output_fname]])
             (Some out_data_bytes))"

definition main_cpu :: "env \<Rightarrow> int \<Rightarrow> int \<Rightarrow> outcome" where
  "main_cpu E ncols nrows =
     (let nvalues = s32 (ncols * nrows)
      in case input_file E of
           None \<Rightarrow> Exit 1 [Printf ('' Error opening the input file: %s '' @ newline) [Str input_fname]] None
         | Some file \<Rightarrow>
             if nvalues < 0 then Crash []
             else if min (nat nvalues) (length file) \<noteq> nat nvalues then
               Exit 1 [Printf (''Error reading input file. '' @ newline) []] None
             else
               (let msgs = [Printf ('' Read data from the file %s '' @ newline) [Str input_fname]];
                    in_data_floats = map byte_to_float (take (nat nvalues) file);
                    out_data_floats = map (heap E) [0..<nat nvalues]
                in case sweeps (map (row_order E) thread_counts) in_data_floats out_data_floats ncols nrows of
                     None \<Rightarrow> Crash msgs
                   | Some out \<Rightarrow> write_output E (msgs @ map Cout_threads thread_counts) nvalues out))"

definition main_gpu :: "env \<Rightarrow> int list \<Rightarrow> int \<Rightarrow> int \<Rightarrow> outcome" where
  "main_gpu E av ncols nrows =
     (let nvalues = s32 (ncols * nrows)
      in case input_file E of
           None \<Rightarrow> Crash []
         | Some file \<Rightarrow>
             if nvalues < 0 then Crash []
             else if min (nat nvalues) (length file) \<noteq> nat nvalues then
               Exit 1 [Printf (''Error reading input file. '' @ newline) []] None
             else
               (let msgs = [Printf ('' Read data from the file %s '' @ newline) [Str input_fname]]
                in case filter (\<lambda>k. cuda_status E k \<noteq> 0) [0..<4] of
                     k # ks \<Rightarrow> Exit (cuda_status E k) (msgs @ [GPUassert (cuda_status E k)]) None
                   | [] \<Rightarrow>
                       (let in_data_floats = map byte_to_float (take (nat nvalues) file);
                            out_data_floats = replicate (nat nvalues) (Finite False 1 0);
                            nBlocks = (if 1 \<le> length av then av ! 0 else 1);
                            nThreadsPerBlock = (if 2 \<le> length av then av ! 1 else 256);
                            msgs = msgs @ [Printf ('' GPU configuration: %d blocks, %d threads per block '' @ newline)
                                             [Num nBlocks, Num nThreadsPerBlock]]
                        in case launch (u32 nBlocks) (u32 nThreadsPerBlock) in_data_floats out_data_floats
                                  (s32 nvalues) nrows ncols Gx Gy of
                             None \<Rightarrow> Crash msgs
                           | Some st \<Rightarrow>
                               if cuda_status E 4 \<noteq> 0
                               then Exit (cuda_status E 4) (msgs @ [GPUassert (cuda_status E 4)]) None
                               else write_output E msgs nvalues (fst st))))"

text \<open>A run on an image of two rows and two columns, for the examples.\<close>

definition example_env :: env where
  "example_env = \<lparr>input_file = Some [0, 255, 7, 200], output_open = True, output_room = 4,
     heap = (\<lambda>k. NaN), row_order = (\<lambda>t. [1, 0]), cuda_status = (\<lambda>k. 0)\<rparr>"

section \<open>Properties of the machine integers\<close>

lemma s32_id: "- 2147483648 \<le> x \<Longrightarrow> x < 2147483648 \<Longrightarrow> s32 x = x"
  by (simp add: s32_def)

lemma u32_id: "0 \<le> x \<Longrightarrow> x < 4294967296 \<Longrightarrow> u32 x = x"
  by (simp add: u32_def)

lemma index_bound:
  fixes a b r c :: int
  assumes "0 \<le> a" "a < r" "0 \<le> b" "b < c"
  shows "0 \<le> a * c + b" and "a * c + b < r * c" and "0 \<le> a * c" and "a * c < r * c"
proof -
  from assms have c: "0 < c" by simp
  show "0 \<le> a * c" using assms c by simp
  then show "0 \<le> a * c + b" using assms by simp
  have "a + 1 \<le> r" using assms by simp
  then have "(a + 1) * c \<le> r * c" using c by (simp only: mult_right_mono less_imp_le)
  then show "a * c + b < r * c" using assms by (simp add: algebra_simps)
  then show "a * c < r * c" using assms by simp
qed

section \<open>Properties of rounding\<close>

lemma normal_zero: "normal 0 e = (0, 0)"
  by (subst normal.simps) simp

lemma normal_odd: "odd m \<Longrightarrow> normal m e = (m, e)"
  by (subst normal.simps) auto

lemma normal_shift: "odd m \<Longrightarrow> normal (m * 2 ^ j) e = (m, e + int j)"
proof (induction j arbitrary: e)
  case 0
  then show ?case by (simp add: normal_odd)
next
  case (Suc j)
  have nz: "m * 2 ^ Suc j \<noteq> 0" using Suc.prems by (auto elim: oddE)
  have ev: "even (m * 2 ^ Suc j)" by simp
  have dv: "(m * 2 ^ Suc j) div 2 = m * 2 ^ j" by simp
  have "normal (m * 2 ^ Suc j) e = normal (m * 2 ^ j) (e + 1)"
    by (subst normal.simps) (simp only: nz ev dv if_False if_True)
  then show ?case using Suc.IH [OF Suc.prems, of "e + 1"] by simp
qed

lemma bitlen_eqI:
  assumes "2 ^ (b - 1) \<le> x" "x < 2 ^ b" "0 < b"
  shows "bitlen (int x) = int b"
proof (rule antisym)
  have "int x < 2 ^ b" using assms(2) by (metis of_nat_less_iff of_nat_numeral of_nat_power)
  then show "bitlen (int x) \<le> int b" by (simp add: bitlen_le_iff_power)
  have "(2::int) ^ (b - 1) \<le> int x" using assms(1) by (metis of_nat_le_iff of_nat_numeral of_nat_power)
  then show "int b \<le> bitlen (int x)" using assms(3) by (simp add: bitlen_ge_iff_power)
qed

lemma bitlen_shift:
  assumes "0 < m"
  shows "bitlen (int (m * 2 ^ j)) = bitlen (int m) + int j"
proof -
  have "int (m * 2 ^ j) = int m * 2 ^ j" by simp
  then show ?thesis using assms by (simp only: bitlen_pow2 of_nat_0_less_iff)
qed

lemma round_sig_zero: "round_sig fmt 0 e = (0, 0)"
  by (simp add: round_sig_def Let_def normal_zero)

lemma fround_zero: "0 \<le> etop fmt \<Longrightarrow> fround fmt s 0 e = Finite s 0 0"
  by (simp add: fround_def round_sig_zero)

lemma round_sig_exact:
  assumes "odd m" "m < 2 ^ prec fmt" "emin fmt \<le> e"
  shows "round_sig fmt (m * 2 ^ j) e = (m, e + int j)"
proof -
  have pos: "0 < m" using assms(1) by (auto elim: oddE)
  define k where "k = max (bitlen (int (m * 2 ^ j)) - int (prec fmt)) (emin fmt - e)"
  have bl: "bitlen (int m) \<le> int (prec fmt)" using assms(2) by (simp add: less_power_nat_iff_bitlen)
  have B: "bitlen (int (m * 2 ^ j)) = bitlen (int m) + int j" by (rule bitlen_shift [OF pos])
  show ?thesis
  proof (cases "k \<le> 0")
    case True
    then show ?thesis
      unfolding round_sig_def Let_def k_def [symmetric] by (simp only: if_True normal_shift [OF assms(1)])
  next
    case False
    then have kpos: "0 < k" by simp
    have keq: "k = bitlen (int m) + int j - int (prec fmt)" using kpos assms(3) B unfolding k_def by linarith
    then have kj: "nat k \<le> j" using bl by linarith
    have split: "m * 2 ^ j = m * 2 ^ (j - nat k) * 2 ^ nat k"
      using kj by (simp add: power_add [symmetric])
    have q: "(m * 2 ^ j) div 2 ^ nat k = m * 2 ^ (j - nat k)"
      by (subst split) simp
    have r: "(m * 2 ^ j) mod 2 ^ nat k = 0"
      by (subst split) simp
    have e: "e + k + int (j - nat k) = e + int j" using kj kpos by linarith
    have c: "\<not> ((2::nat) ^ nat k < 2 * 0 \<or> (2 * 0 = (2::nat) ^ nat k \<and> odd (m * 2 ^ (j - nat k))))"
      by simp
    show ?thesis
      unfolding round_sig_def Let_def k_def [symmetric] if_not_P [OF False] q r if_not_P [OF c]
      by (simp only: normal_shift [OF assms(1)] e)
  qed
qed

lemma fround_exact:
  assumes "odd m" "m < 2 ^ prec fmt" "emin fmt \<le> e" "bitlen (int m) + e + int j \<le> etop fmt"
  shows "fround fmt s (m * 2 ^ j) e = Finite s m (e + int j)"
  unfolding fround_def Let_def round_sig_exact [OF assms(1-3)] using assms(4) by simp

lemma round_sig_inexact:
  assumes "2 ^ (b - 1) \<le> M" "M < 2 ^ b" "0 < b"
    and "int k = max (int b - int (prec fmt)) (emin fmt - e)" "0 < k"
    and "q = M div 2 ^ k" "r = M mod 2 ^ k"
    and "(if 2 ^ k < 2 * r \<or> (2 * r = 2 ^ k \<and> odd q) then q + 1 else q) = m * 2 ^ j" "odd m"
  shows "round_sig fmt M e = (m, e + int k + int j)"
proof -
  have B: "bitlen (int M) = int b" by (rule bitlen_eqI [OF assms(1-3)])
  have K: "max (bitlen (int M) - int (prec fmt)) (emin fmt - e) = int k"
    using assms(4) B by simp
  have npos: "\<not> int k \<le> 0" using assms(5) by simp
  have nk: "nat (int k) = k" by simp
  show ?thesis
    unfolding round_sig_def Let_def K if_not_P [OF npos] nk assms(6,7) [symmetric] assms(8)
    by (rule normal_shift [OF assms(9)])
qed

lemma fround_inexact:
  assumes "2 ^ (b - 1) \<le> M" "M < 2 ^ b" "0 < b"
    and "int k = max (int b - int (prec fmt)) (emin fmt - e)" "0 < k"
    and "q = M div 2 ^ k" "r = M mod 2 ^ k"
    and "(if 2 ^ k < 2 * r \<or> (2 * r = 2 ^ k \<and> odd q) then q + 1 else q) = m * 2 ^ j" "odd m"
    and "m < 2 ^ w" "int w + (e + int k + int j) \<le> etop fmt"
  shows "fround fmt s M e = Finite s m (e + int k + int j)"
proof -
  have bm: "bitlen (int m) \<le> int w" using assms(10) by (simp add: less_power_nat_iff_bitlen)
  show ?thesis
    unfolding fround_def Let_def round_sig_inexact [OF assms(1-9)] using bm assms(11) by simp
qed

lemma fround_exact_w:
  assumes "odd m" "m < 2 ^ prec fmt" "emin fmt \<le> e" "int (prec fmt) + e + int j \<le> etop fmt"
  shows "fround fmt s (m * 2 ^ j) e = Finite s m (e + int j)"
proof -
  have "bitlen (int m) \<le> int (prec fmt)" using assms(2) by (simp add: less_power_nat_iff_bitlen)
  then have "bitlen (int m) + e + int j \<le> etop fmt" using assms(4) by linarith
  then show ?thesis by (rule fround_exact [OF assms(1-3)])
qed

lemma float_to_byte_floor:
  assumes "is_float binary32 (Finite False m e)"
  shows "float_to_byte (Finite False m e) = word_of_int \<lfloor>valof (Finite False m e) * 255\<rfloor>"
proof (cases "m = 0")
  case True
  have z: "fround binary64 s 0 x = Finite s 0 0" for s x
    by (rule fround_zero) (simp add: binary64_def)
  show ?thesis by (simp add: True float_to_byte_def byte_of_double_def z)
next
  case False
  then have f: "odd m" "m < 2 ^ 24" "- 149 \<le> e" "bitlen (int m) + e \<le> 128"
    using assms by (simp_all add: binary32_def)
  have bl: "bitlen (int m) \<le> 24" using f(2) less_power_nat_iff_bitlen [of m 24] by simp
  have bn: "0 \<le> bitlen (int m)" by (rule bitlen_nonneg)
  have m53: "m < 2 ^ prec binary64"
  proof -
    have "(2::nat) ^ 24 \<le> 2 ^ 53" by simp
    then show ?thesis using f(2) by (simp add: binary64_def)
  qed
  have w: "fcvt binary64 (Finite False m e) = Finite False m e"
    using fround_exact [of m binary64 e 0 False] f m53 by (simp add: binary64_def)
  have o: "odd (m * 255)" using f(1) by simp
  have p53: "m * 255 < 2 ^ prec binary64"
  proof -
    have "m * 255 < 2 ^ 24 * 2 ^ 8" using f(2) by (intro mult_strict_mono) simp_all
    also have "\<dots> \<le> (2::nat) ^ 53" by simp
    finally show ?thesis by (simp add: binary64_def)
  qed
  have b32: "bitlen (int (m * 255)) \<le> 32"
  proof -
    have "m * 255 < 2 ^ 24 * 2 ^ 8" using f(2) by (intro mult_strict_mono) simp_all
    then have "m * 255 < 2 ^ 32" by simp
    then show ?thesis using less_power_nat_iff_bitlen [of "m * 255" 32] by simp
  qed
  have e128: "e \<le> 128" using f(4) bn by linarith
  have s: "fmul binary64 (Finite False m e) (Finite False 255 0) = Finite False (m * 255) e"
    using fround_exact [of "m * 255" binary64 e 0 False] o p53 f(3) b32 e128
    by (simp add: binary64_def)
  have t: "ftrunc (Finite False (m * 255) e) = \<lfloor>valof (Finite False m e) * 255\<rfloor>"
  proof (cases "0 \<le> e")
    case True
    have "valof (Finite False m e) * 255 = real_of_int (int (m * 255) * 2 ^ nat e)"
      using True by simp
    then show ?thesis using True by (simp only: floor_of_int ftrunc.simps Let_def if_True if_False)
  next
    case False
    have "valof (Finite False m e) * 255 = real (m * 255) / real (2 ^ nat (- e))"
      using False by simp
    then have "\<lfloor>valof (Finite False m e) * 255\<rfloor> = int ((m * 255) div 2 ^ nat (- e))"
      by (simp only: floor_divide_of_nat_eq)
    then show ?thesis using False by (simp add: zdiv_int)
  qed
  show ?thesis by (simp only: float_to_byte_def w s byte_of_double_def t)
qed

section \<open>The conversions at particular bytes\<close>

lemma rt_round_0:
  "fround binary64 False 318155444763165048407768934029 (- 106) = Finite False 4521260802379815 (- 60)"
proof -
  have "fround binary64 False 318155444763165048407768934029 (- 106) = Finite False 4521260802379815 ((- 106) + int 46 + int 0)"
    by (rule fround_inexact [where b = 99 and q = 4521260802379814 and r = 47080145659533 and w = 53])
       (simp_all add: binary64_def)
  then show ?thesis by (simp del: One_nat_def)
qed

lemma bitlen_denominator:
  "bitlen 1000000000000000 = 50"
  using bitlen_eqI [of 50 1000000000000000] by simp

lemma ONE_OVER_255_value:
  "ONE_OVER_255 = Finite False 4521260802379815 (- 60)"
  by (simp add: ONE_OVER_255_def fliteral_def Let_def bitlen_denominator binary64_def rt_round_0 [unfolded binary64_def])

lemma rt_round_1:
  "fround binary32 False 0 0 = Finite False 0 0"
  by (rule fround_zero) (simp add: binary32_def)

lemma rt_round_2:
  "fround binary64 False 0 0 = Finite False 0 0"
  by (rule fround_zero) (simp add: binary64_def)

lemma rt_round_3:
  "fround binary64 False 0 (- 60) = Finite False 0 0"
  by (rule fround_zero) (simp add: binary64_def)

lemma unat_byte_0:
  "unat (0 :: byte) = 0"
  by simp

lemma byte_to_float_0:
  "byte_to_float 0 = Finite False 0 0"
  unfolding byte_to_float_def float_of_byte_def unat_byte_0 ONE_OVER_255_value
  by (simp add: rt_round_1 rt_round_2 rt_round_3 rt_round_1 del: One_nat_def)

lemma float_to_byte_0:
  "float_to_byte (Finite False 0 0) = 0"
  by (simp add: float_to_byte_def byte_of_double_def rt_round_2 rt_round_2 del: One_nat_def)

lemma rt_round_4:
  "fround binary32 False 1 0 = Finite False 1 0"
proof -
  have "fround binary32 False (1 * 2 ^ 0) 0 = Finite False 1 (0 + int 0)"
    by (rule fround_exact_w) (simp_all add: binary32_def)
  then show ?thesis by (simp del: One_nat_def)
qed

lemma rt_round_5:
  "fround binary64 False 1 0 = Finite False 1 0"
proof -
  have "fround binary64 False (1 * 2 ^ 0) 0 = Finite False 1 (0 + int 0)"
    by (rule fround_exact_w) (simp_all add: binary64_def)
  then show ?thesis by (simp del: One_nat_def)
qed

lemma rt_round_6:
  "fround binary64 False 4521260802379815 (- 60) = Finite False 4521260802379815 (- 60)"
proof -
  have "fround binary64 False (4521260802379815 * 2 ^ 0) (- 60) = Finite False 4521260802379815 ((- 60) + int 0)"
    by (rule fround_exact_w) (simp_all add: binary64_def)
  then show ?thesis by (simp del: One_nat_def)
qed

lemma rt_round_7:
  "fround binary32 False 4521260802379815 (- 60) = Finite False 8421505 (- 31)"
proof -
  have "fround binary32 False 4521260802379815 (- 60) = Finite False 8421505 ((- 60) + int 29 + int 0)"
    by (rule fround_inexact [where b = 53 and q = 8421504 and r = 269488167 and w = 24])
       (simp_all add: binary32_def)
  then show ?thesis by (simp del: One_nat_def)
qed

lemma unat_byte_1:
  "unat (1 :: byte) = 1"
  by simp

lemma byte_to_float_1:
  "byte_to_float 1 = Finite False 8421505 (- 31)"
  unfolding byte_to_float_def float_of_byte_def unat_byte_1 ONE_OVER_255_value
  by (simp add: rt_round_4 rt_round_5 rt_round_6 rt_round_7 del: One_nat_def)

lemma rt_round_8:
  "fround binary64 False 8421505 (- 31) = Finite False 8421505 (- 31)"
proof -
  have "fround binary64 False (8421505 * 2 ^ 0) (- 31) = Finite False 8421505 ((- 31) + int 0)"
    by (rule fround_exact_w) (simp_all add: binary64_def)
  then show ?thesis by (simp del: One_nat_def)
qed

lemma rt_round_9:
  "fround binary64 False 2147483775 (- 31) = Finite False 2147483775 (- 31)"
proof -
  have "fround binary64 False (2147483775 * 2 ^ 0) (- 31) = Finite False 2147483775 ((- 31) + int 0)"
    by (rule fround_exact_w) (simp_all add: binary64_def)
  then show ?thesis by (simp del: One_nat_def)
qed

lemma float_to_byte_1:
  "float_to_byte (Finite False 8421505 (- 31)) = 1"
  by (simp add: float_to_byte_def byte_of_double_def rt_round_8 rt_round_9 del: One_nat_def)

lemma rt_round_10:
  "fround binary32 False 127 0 = Finite False 127 0"
proof -
  have "fround binary32 False (127 * 2 ^ 0) 0 = Finite False 127 (0 + int 0)"
    by (rule fround_exact_w) (simp_all add: binary32_def)
  then show ?thesis by (simp del: One_nat_def)
qed

lemma rt_round_11:
  "fround binary64 False 127 0 = Finite False 127 0"
proof -
  have "fround binary64 False (127 * 2 ^ 0) 0 = Finite False 127 (0 + int 0)"
    by (rule fround_exact_w) (simp_all add: binary64_def)
  then show ?thesis by (simp del: One_nat_def)
qed

lemma rt_round_12:
  "fround binary64 False 574200121902236505 (- 60) = Finite False 8971876904722445 (- 54)"
proof -
  have "fround binary64 False 574200121902236505 (- 60) = Finite False 8971876904722445 ((- 60) + int 6 + int 0)"
    by (rule fround_inexact [where b = 59 and q = 8971876904722445 and r = 25 and w = 53])
       (simp_all add: binary64_def)
  then show ?thesis by (simp del: One_nat_def)
qed

lemma rt_round_13:
  "fround binary32 False 8971876904722445 (- 54) = Finite False 16711423 (- 25)"
proof -
  have "fround binary32 False 8971876904722445 (- 54) = Finite False 16711423 ((- 54) + int 29 + int 0)"
    by (rule fround_inexact [where b = 53 and q = 16711422 and r = 534765581 and w = 24])
       (simp_all add: binary32_def)
  then show ?thesis by (simp del: One_nat_def)
qed

lemma unat_byte_127:
  "unat (127 :: byte) = 127"
  by simp

lemma byte_to_float_127:
  "byte_to_float 127 = Finite False 16711423 (- 25)"
  unfolding byte_to_float_def float_of_byte_def unat_byte_127 ONE_OVER_255_value
  by (simp add: rt_round_10 rt_round_11 rt_round_12 rt_round_13 del: One_nat_def)

lemma rt_round_14:
  "fround binary64 False 16711423 (- 25) = Finite False 16711423 (- 25)"
proof -
  have "fround binary64 False (16711423 * 2 ^ 0) (- 25) = Finite False 16711423 ((- 25) + int 0)"
    by (rule fround_exact_w) (simp_all add: binary64_def)
  then show ?thesis by (simp del: One_nat_def)
qed

lemma rt_round_15:
  "fround binary64 False 4261412865 (- 25) = Finite False 4261412865 (- 25)"
proof -
  have "fround binary64 False (4261412865 * 2 ^ 0) (- 25) = Finite False 4261412865 ((- 25) + int 0)"
    by (rule fround_exact_w) (simp_all add: binary64_def)
  then show ?thesis by (simp del: One_nat_def)
qed

lemma float_to_byte_127:
  "float_to_byte (Finite False 16711423 (- 25)) = 127"
  by (simp add: float_to_byte_def byte_of_double_def rt_round_14 rt_round_15 del: One_nat_def)

lemma rt_round_16:
  "fround binary32 False 128 0 = Finite False 1 7"
proof -
  have "fround binary32 False (1 * 2 ^ 7) 0 = Finite False 1 (0 + int 7)"
    by (rule fround_exact_w) (simp_all add: binary32_def)
  then show ?thesis by (simp del: One_nat_def)
qed

lemma rt_round_17:
  "fround binary64 False 1 7 = Finite False 1 7"
proof -
  have "fround binary64 False (1 * 2 ^ 0) 7 = Finite False 1 (7 + int 0)"
    by (rule fround_exact_w) (simp_all add: binary64_def)
  then show ?thesis by (simp del: One_nat_def)
qed

lemma rt_round_18:
  "fround binary64 False 4521260802379815 (- 53) = Finite False 4521260802379815 (- 53)"
proof -
  have "fround binary64 False (4521260802379815 * 2 ^ 0) (- 53) = Finite False 4521260802379815 ((- 53) + int 0)"
    by (rule fround_exact_w) (simp_all add: binary64_def)
  then show ?thesis by (simp del: One_nat_def)
qed

lemma rt_round_19:
  "fround binary32 False 4521260802379815 (- 53) = Finite False 8421505 (- 24)"
proof -
  have "fround binary32 False 4521260802379815 (- 53) = Finite False 8421505 ((- 53) + int 29 + int 0)"
    by (rule fround_inexact [where b = 53 and q = 8421504 and r = 269488167 and w = 24])
       (simp_all add: binary32_def)
  then show ?thesis by (simp del: One_nat_def)
qed

lemma unat_byte_128:
  "unat (128 :: byte) = 128"
  by simp

lemma byte_to_float_128:
  "byte_to_float 128 = Finite False 8421505 (- 24)"
  unfolding byte_to_float_def float_of_byte_def unat_byte_128 ONE_OVER_255_value
  by (simp add: rt_round_16 rt_round_17 rt_round_18 rt_round_19 del: One_nat_def)

lemma rt_round_20:
  "fround binary64 False 8421505 (- 24) = Finite False 8421505 (- 24)"
proof -
  have "fround binary64 False (8421505 * 2 ^ 0) (- 24) = Finite False 8421505 ((- 24) + int 0)"
    by (rule fround_exact_w) (simp_all add: binary64_def)
  then show ?thesis by (simp del: One_nat_def)
qed

lemma rt_round_21:
  "fround binary64 False 2147483775 (- 24) = Finite False 2147483775 (- 24)"
proof -
  have "fround binary64 False (2147483775 * 2 ^ 0) (- 24) = Finite False 2147483775 ((- 24) + int 0)"
    by (rule fround_exact_w) (simp_all add: binary64_def)
  then show ?thesis by (simp del: One_nat_def)
qed

lemma float_to_byte_128:
  "float_to_byte (Finite False 8421505 (- 24)) = 128"
  by (simp add: float_to_byte_def byte_of_double_def rt_round_20 rt_round_21 del: One_nat_def)

lemma rt_round_22:
  "fround binary32 False 254 0 = Finite False 127 1"
proof -
  have "fround binary32 False (127 * 2 ^ 1) 0 = Finite False 127 (0 + int 1)"
    by (rule fround_exact_w) (simp_all add: binary32_def)
  then show ?thesis by (simp del: One_nat_def)
qed

lemma rt_round_23:
  "fround binary64 False 127 1 = Finite False 127 1"
proof -
  have "fround binary64 False (127 * 2 ^ 0) 1 = Finite False 127 (1 + int 0)"
    by (rule fround_exact_w) (simp_all add: binary64_def)
  then show ?thesis by (simp del: One_nat_def)
qed

lemma rt_round_24:
  "fround binary64 False 574200121902236505 (- 59) = Finite False 8971876904722445 (- 53)"
proof -
  have "fround binary64 False 574200121902236505 (- 59) = Finite False 8971876904722445 ((- 59) + int 6 + int 0)"
    by (rule fround_inexact [where b = 59 and q = 8971876904722445 and r = 25 and w = 53])
       (simp_all add: binary64_def)
  then show ?thesis by (simp del: One_nat_def)
qed

lemma rt_round_25:
  "fround binary32 False 8971876904722445 (- 53) = Finite False 16711423 (- 24)"
proof -
  have "fround binary32 False 8971876904722445 (- 53) = Finite False 16711423 ((- 53) + int 29 + int 0)"
    by (rule fround_inexact [where b = 53 and q = 16711422 and r = 534765581 and w = 24])
       (simp_all add: binary32_def)
  then show ?thesis by (simp del: One_nat_def)
qed

lemma unat_byte_254:
  "unat (254 :: byte) = 254"
  by simp

lemma byte_to_float_254:
  "byte_to_float 254 = Finite False 16711423 (- 24)"
  unfolding byte_to_float_def float_of_byte_def unat_byte_254 ONE_OVER_255_value
  by (simp add: rt_round_22 rt_round_23 rt_round_24 rt_round_25 del: One_nat_def)

lemma rt_round_26:
  "fround binary64 False 16711423 (- 24) = Finite False 16711423 (- 24)"
proof -
  have "fround binary64 False (16711423 * 2 ^ 0) (- 24) = Finite False 16711423 ((- 24) + int 0)"
    by (rule fround_exact_w) (simp_all add: binary64_def)
  then show ?thesis by (simp del: One_nat_def)
qed

lemma rt_round_27:
  "fround binary64 False 4261412865 (- 24) = Finite False 4261412865 (- 24)"
proof -
  have "fround binary64 False (4261412865 * 2 ^ 0) (- 24) = Finite False 4261412865 ((- 24) + int 0)"
    by (rule fround_exact_w) (simp_all add: binary64_def)
  then show ?thesis by (simp del: One_nat_def)
qed

lemma float_to_byte_254:
  "float_to_byte (Finite False 16711423 (- 24)) = 254"
  by (simp add: float_to_byte_def byte_of_double_def rt_round_26 rt_round_27 del: One_nat_def)

lemma rt_round_28:
  "fround binary32 False 255 0 = Finite False 255 0"
proof -
  have "fround binary32 False (255 * 2 ^ 0) 0 = Finite False 255 (0 + int 0)"
    by (rule fround_exact_w) (simp_all add: binary32_def)
  then show ?thesis by (simp del: One_nat_def)
qed

lemma rt_round_29:
  "fround binary64 False 255 0 = Finite False 255 0"
proof -
  have "fround binary64 False (255 * 2 ^ 0) 0 = Finite False 255 (0 + int 0)"
    by (rule fround_exact_w) (simp_all add: binary64_def)
  then show ?thesis by (simp del: One_nat_def)
qed

lemma rt_round_30:
  "fround binary64 False 1152921504606852825 (- 60) = Finite False 4503599627370519 (- 52)"
proof -
  have "fround binary64 False 1152921504606852825 (- 60) = Finite False 4503599627370519 ((- 60) + int 8 + int 0)"
    by (rule fround_inexact [where b = 61 and q = 4503599627370518 and r = 217 and w = 53])
       (simp_all add: binary64_def)
  then show ?thesis by (simp del: One_nat_def)
qed

lemma rt_round_31:
  "fround binary32 False 4503599627370519 (- 52) = Finite False 1 0"
proof -
  have "fround binary32 False 4503599627370519 (- 52) = Finite False 1 ((- 52) + int 29 + int 23)"
    by (rule fround_inexact [where b = 53 and q = 8388608 and r = 23 and w = 1])
       (simp_all add: binary32_def)
  then show ?thesis by (simp del: One_nat_def)
qed

lemma unat_byte_255:
  "unat (255 :: byte) = 255"
  by simp

lemma byte_to_float_255:
  "byte_to_float 255 = Finite False 1 0"
  unfolding byte_to_float_def float_of_byte_def unat_byte_255 ONE_OVER_255_value
  by (simp add: rt_round_28 rt_round_29 rt_round_30 rt_round_31 del: One_nat_def)

lemma float_to_byte_255:
  "float_to_byte (Finite False 1 0) = 255"
  by (simp add: float_to_byte_def byte_of_double_def rt_round_5 rt_round_29 del: One_nat_def)

section \<open>Properties of the evaluator\<close>

lemma stencil_loop_offsets:
  "stencil_loop body t0 = foldl (\<lambda>acc (y, x). Option.bind acc (body y x)) (Some t0) offsets9"
  by (simp add: stencil_loop_def offsets9_def)

lemma tap_in_range:
  assumes "0 \<le> i" "i < nrows" "0 \<le> j" "j < ncols" "nrows * ncols < 2147483648"
    and "int (length s) = nrows * ncols" "length g = 9"
    and "y \<in> {- 1, 0, 1}" "x \<in> {- 1, 0, 1}"
  shows "tap s i j ncols nrows g y x t =
           Some (if 0 \<le> i + y \<and> i + y < nrows \<and> 0 \<le> j + x \<and> j + x < ncols
                 then fadd binary32 t (fmul binary32 (g ! nat ((y + 1) * 3 + (x + 1)))
                                                     (s ! nat ((i + y) * ncols + (j + x))))
                 else t)"
proof -
  have c: "0 < ncols" and r: "0 < nrows" using assms by simp_all
  have "nrows \<le> nrows * ncols" using c r by simp
  then have rb: "nrows < 2147483648" using assms(5) by linarith
  have "ncols \<le> nrows * ncols" using c r by simp
  then have cb: "ncols < 2147483648" using assms(5) by linarith
  have iy: "s32 (i + y) = i + y" using assms rb by (intro s32_id) auto
  have jx: "s32 (j + x) = j + x" using assms cb by (intro s32_id) auto
  have w: "read_at g ((y + 1) * 3 + (x + 1)) = Some (g ! nat ((y + 1) * 3 + (x + 1)))"
    using assms by (auto simp: read_at_def)
  show ?thesis
  proof (cases "0 \<le> i + y \<and> i + y < nrows \<and> 0 \<le> j + x \<and> j + x < ncols")
    case True
    then have b: "0 \<le> (i + y) * ncols + (j + x)" "(i + y) * ncols + (j + x) < nrows * ncols"
      "0 \<le> (i + y) * ncols" "(i + y) * ncols < nrows * ncols"
      using index_bound [of "i + y" nrows "j + x" ncols] by simp_all
    have m: "s32 ((i + y) * ncols) = (i + y) * ncols"
      using b(3,4) assms(5) by (intro s32_id) linarith+
    have k: "s32 ((i + y) * ncols + (j + x)) = (i + y) * ncols + (j + x)"
      using b(1,2) assms(5) by (intro s32_id) linarith+
    have v: "read_at s ((i + y) * ncols + (j + x)) = Some (s ! nat ((i + y) * ncols + (j + x)))"
      using b assms by (simp add: read_at_def)
    show ?thesis unfolding tap_def Let_def iy jx m k w v using True by simp
  next
    case False
    then show ?thesis by (auto simp add: tap_def iy jx)
  qed
qed


lemma tap_fold:
  assumes "0 \<le> i" "i < nrows" "0 \<le> j" "j < ncols" "nrows * ncols < 2147483648"
    and "int (length s) = nrows * ncols" "length g = 9"
    and "set os \<subseteq> {- 1, 0, 1} \<times> {- 1, 0, 1}"
  shows "foldl (\<lambda>acc (y, x). Option.bind acc (tap s i j ncols nrows g y x)) (Some t) os =
           Some (weighted_sum g s i j ncols t
                  (filter (\<lambda>(dy, dx). 0 \<le> i + dy \<and> i + dy < nrows \<and> 0 \<le> j + dx \<and> j + dx < ncols) os))"
  using assms(8)
proof (induction os arbitrary: t)
  case Nil
  show ?case by (simp add: weighted_sum_def)
next
  case (Cons p os)
  obtain y x where o: "p = (y, x)" by (cases p)
  with Cons.prems have yx: "y \<in> {- 1, 0, 1}" "x \<in> {- 1, 0, 1}" and os: "set os \<subseteq> {- 1, 0, 1} \<times> {- 1, 0, 1}"
    by auto
  note t = tap_in_range [OF assms(1-7) yx]
  show ?case
    using Cons.IH [OF os] by (simp add: o t weighted_sum_def)
qed

lemma sobel_filtered_pixel_sum:
  assumes "0 \<le> i" "i < nrows" "0 \<le> j" "j < ncols" "nrows * ncols < 2147483648"
    and "int (length s) = nrows * ncols" "length gx = 9" "length gy = 9"
  shows "sobel_filtered_pixel s i j ncols nrows gx gy =
           Some (let X = weighted_sum gx s i j ncols (Finite False 0 0) (contributing i j nrows ncols);
                     Y = weighted_sum gy s i j ncols (Finite False 0 0) (contributing i j nrows ncols)
                 in fsqrt binary32 (fadd binary32 (fmul binary32 X X) (fmul binary32 Y Y)))"
proof -
  have os: "set offsets9 \<subseteq> {- 1, 0, 1} \<times> {- 1, 0, 1}" by (simp add: offsets9_def)
  show ?thesis
    by (simp add: sobel_filtered_pixel_def stencil_loop_offsets contributing_def Let_def
        tap_fold [OF assms(1-6) assms(7) os] tap_fold [OF assms(1-6) assms(8) os])
qed

lemma both_simps [simp]:
  "both None b = None" "both a None = None" "both (Some x) (Some y) = Some (x, y)"
  by (simp_all add: both_def split: option.splits)

lemma tap_gpu_step:
  "tap_gpu s i j ncols nrows gx gy y x G =
     both (tap s i j ncols nrows gx y x (fst G)) (tap s i j ncols nrows gy y x (snd G))"
  by (auto simp add: tap_gpu_def tap_def Let_def both_def split: option.splits)

lemma foldl_bind_None:
  "foldl (\<lambda>acc (y, x). Option.bind acc (f y x)) None zs = None"
  by (induction zs) auto

lemma gpu_fold_rel:
  "foldl (\<lambda>acc (y, x). Option.bind acc (tap_gpu s i j ncols nrows gx gy y x)) A os =
     both (foldl (\<lambda>acc (y, x). Option.bind acc (tap s i j ncols nrows gx y x)) (map_option fst A) os)
          (foldl (\<lambda>acc (y, x). Option.bind acc (tap s i j ncols nrows gy y x)) (map_option snd A) os)"
proof (induction os arbitrary: A)
  case Nil
  show ?case by (cases A) auto
next
  case (Cons p os)
  obtain y x where p: "p = (y, x)" by (cases p)
  show ?case
  proof (cases A)
    case None
    then show ?thesis by (simp add: foldl_bind_None)
  next
    case (Some G)
    show ?thesis
    proof (cases "tap s i j ncols nrows gx y x (fst G)")
      case None
      then show ?thesis by (simp add: Some p tap_gpu_step foldl_bind_None)
    next
      case a: (Some a)
      show ?thesis
      proof (cases "tap s i j ncols nrows gy y x (snd G)")
        case None
        then show ?thesis by (simp add: Some p a tap_gpu_step foldl_bind_None)
      next
        case b: (Some b)
        show ?thesis using Cons.IH [of "Some (a, b)"] by (simp add: Some p a b tap_gpu_step)
      qed
    qed
  qed
qed

lemma sobel_filtered_pixel_gpu_eq:
  "sobel_filtered_pixel_gpu s i j ncols nrows gx gy = sobel_filtered_pixel s i j ncols nrows gx gy"
  by (simp add: sobel_filtered_pixel_gpu_def sobel_filtered_pixel_def stencil_loop_offsets
      gpu_fold_rel both_def split: option.splits)

lemma neighbor_index_in_range:
  assumes "0 \<le> i" "i < nrows" "0 \<le> j" "j < ncols" "nrows * ncols < 2147483648"
    and "y \<in> {- 1, 0, 1}" "x \<in> {- 1, 0, 1}"
  shows "s32 (i + y) = i + y" and "s32 (j + x) = j + x"
    and "0 \<le> i + y \<and> i + y < nrows \<and> 0 \<le> j + x \<and> j + x < ncols \<Longrightarrow>
           s32 (s32 ((i + y) * ncols) + (j + x)) = (i + y) * ncols + (j + x) \<and>
           0 \<le> (i + y) * ncols + (j + x) \<and> (i + y) * ncols + (j + x) < nrows * ncols"
proof -
  have c: "0 < ncols" and r: "0 < nrows" using assms by simp_all
  have "nrows \<le> nrows * ncols" using c r by simp
  then have rb: "nrows < 2147483648" using assms(5) by linarith
  have "ncols \<le> nrows * ncols" using c r by simp
  then have cb: "ncols < 2147483648" using assms(5) by linarith
  show "s32 (i + y) = i + y" using assms rb by (intro s32_id) auto
  show "s32 (j + x) = j + x" using assms cb by (intro s32_id) auto
  assume "0 \<le> i + y \<and> i + y < nrows \<and> 0 \<le> j + x \<and> j + x < ncols"
  then have b: "0 \<le> (i + y) * ncols + (j + x)" "(i + y) * ncols + (j + x) < nrows * ncols"
    "0 \<le> (i + y) * ncols" "(i + y) * ncols < nrows * ncols"
    using index_bound [of "i + y" nrows "j + x" ncols] by simp_all
  have m: "s32 ((i + y) * ncols) = (i + y) * ncols"
    using b(3,4) assms(5) by (intro s32_id) linarith+
  have k: "s32 ((i + y) * ncols + (j + x)) = (i + y) * ncols + (j + x)"
    using b(1,2) assms(5) by (intro s32_id) linarith+
  show "s32 (s32 ((i + y) * ncols) + (j + x)) = (i + y) * ncols + (j + x) \<and>
        0 \<le> (i + y) * ncols + (j + x) \<and> (i + y) * ncols + (j + x) < nrows * ncols"
    using b m k by simp
qed

lemma offsets9_set: "set offsets9 = {- 1, 0, 1} \<times> {- 1, 0, 1}"
  by (auto simp add: offsets9_def)

lemma offsets9_distinct: "distinct offsets9"
  by (simp add: offsets9_def)

lemma contributing_set:
  "set (contributing row col rows cols) =
     {(dy, dx). dy \<in> {- 1, 0, 1} \<and> dx \<in> {- 1, 0, 1} \<and>
        0 \<le> row + dy \<and> row + dy < rows \<and> 0 \<le> col + dx \<and> col + dx < cols}"
  unfolding contributing_def set_filter offsets9_set by auto

lemma contributing_distinct: "distinct (contributing row col rows cols)"
  unfolding contributing_def by (rule distinct_filter) (rule offsets9_distinct)

lemma contributing_corner:
  "2 \<le> rows \<Longrightarrow> 2 \<le> cols \<Longrightarrow> contributing 0 0 rows cols = [(0, 0), (0, 1), (1, 0), (1, 1)]"
  by (simp add: contributing_def offsets9_def)

section \<open>Properties of the CPU sweep\<close>

lemma write_at_Some:
  "0 \<le> k \<Longrightarrow> k < int (length xs) \<Longrightarrow> write_at xs k v = Some (xs[nat k := v])"
  by (simp add: write_at_def)

lemma out_index:
  assumes "0 \<le> i" "i < nrows" "0 \<le> j" "j < ncols" "nrows * ncols < 2147483648"
  shows "s32 (s32 (i * ncols) + j) = i * ncols + j"
    and "0 \<le> i * ncols + j" and "i * ncols + j < nrows * ncols"
    and "(i * ncols + j) div ncols = i" and "(i * ncols + j) mod ncols = j"
proof -
  have b: "0 \<le> i * ncols + j" "i * ncols + j < nrows * ncols" "0 \<le> i * ncols" "i * ncols < nrows * ncols"
    using index_bound [OF assms(1-4)] by simp_all
  have m: "s32 (i * ncols) = i * ncols" using b(3,4) assms(5) by (intro s32_id) linarith+
  have k: "s32 (i * ncols + j) = i * ncols + j" using b(1,2) assms(5) by (intro s32_id) linarith+
  show "s32 (s32 (i * ncols) + j) = i * ncols + j" by (simp add: m k)
  show "0 \<le> i * ncols + j" "i * ncols + j < nrows * ncols" by (rule b)+
  show "(i * ncols + j) div ncols = i" using assms by simp
  show "(i * ncols + j) mod ncols = j" using assms by simp
qed

lemma sobel_cols_result:
  assumes "0 \<le> i" "i < nrows" "nrows * ncols < 2147483648"
    and "int (length inp) = nrows * ncols"
    and "int (length out) = nrows * ncols" "set js \<subseteq> {0..<ncols}"
  shows "\<exists>out'. sobel_cols inp ncols nrows i js out = Some out' \<and> length out' = length out \<and>
           (\<forall>k < length out. out' ! k =
              (if int k div ncols = i \<and> int k mod ncols \<in> set js
               then sobel_image inp ncols nrows Gx Gy ! k else out ! k))"
  using assms(5,6)
proof (induction js arbitrary: out)
  case Nil
  then show ?case by simp
next
  case (Cons j js)
  have j: "0 \<le> j" "j < ncols" and js: "set js \<subseteq> {0..<ncols}" using Cons.prems(2) by auto
  have g9: "length Gx = 9" "length Gy = 9" by (simp_all add: Gx_def Gy_def)
  note ix = out_index [OF assms(1,2) j assms(3)]
  have jm: "j mod ncols = j" using j by simp
  obtain g where g: "sobel_filtered_pixel inp i j ncols nrows Gx Gy = Some g"
    using sobel_filtered_pixel_sum [OF assms(1,2) j assms(3,4) g9] by simp
  let ?k = "nat (i * ncols + j)"
  let ?out = "out[?k := g]"
  have kl: "?k < length out" using ix(2,3) Cons.prems(1) by linarith
  have w: "write_at out (s32 (s32 (i * ncols) + j)) g = Some ?out"
    using ix(2,3) Cons.prems(1) by (simp add: ix(1) write_at_def)
  have len: "int (length ?out) = nrows * ncols" using Cons.prems(1) by simp
  from Cons.IH [OF len js] obtain out' where
    o: "sobel_cols inp ncols nrows i js ?out = Some out'" "length out' = length ?out"
      "\<forall>k < length ?out. out' ! k =
         (if int k div ncols = i \<and> int k mod ncols \<in> set js
          then sobel_image inp ncols nrows Gx Gy ! k else ?out ! k)"
    by blast
  have img: "sobel_image inp ncols nrows Gx Gy ! ?k = g"
  proof -
    have "?k < nat (nrows * ncols)" using kl Cons.prems(1) by linarith
    then show ?thesis using ix(2) by (simp add: sobel_image_def ix(4,5) g jm)
  qed
  have "\<forall>k < length out. out' ! k =
          (if int k div ncols = i \<and> int k mod ncols \<in> set (j # js)
           then sobel_image inp ncols nrows Gx Gy ! k else out ! k)"
  proof (intro allI impI)
    fix k assume k: "k < length out"
    show "out' ! k = (if int k div ncols = i \<and> int k mod ncols \<in> set (j # js)
           then sobel_image inp ncols nrows Gx Gy ! k else out ! k)"
    proof (cases "k = ?k")
      case True
      then show ?thesis using o(3) k kl img ix(2) by (simp add: ix(4,5) jm)
    next
      case False
      have "\<not> (int k div ncols = i \<and> int k mod ncols = j)"
      proof
        assume "int k div ncols = i \<and> int k mod ncols = j"
        then have "int k = i * ncols + j" by (metis div_mult_mod_eq)
        then show False using False by simp
      qed
      then show ?thesis using o(3) k False by auto
    qed
  qed
  then show ?case using o(1,2) g w by simp
qed

lemma int_div_less:
  fixes a c r :: int
  assumes "0 < c" "a < r * c"
  shows "a div c < r"
proof (rule ccontr)
  assume "\<not> a div c < r"
  then have "r \<le> a div c" by simp
  then have "r * c \<le> (a div c) * c" using assms(1) by (intro mult_right_mono) simp_all
  moreover have "(a div c) * c + a mod c = a" by simp
  moreover have "0 \<le> a mod c" using assms(1) by simp
  ultimately show False using assms(2) by linarith
qed

lemma upto_set_int: "set [0..n - 1] = {0..<n::int}"
proof -
  have "{0..n - 1} = {0..<n}" by (rule set_eqI) simp
  then show ?thesis by simp
qed

lemma sobel_rows_result:
  assumes "0 < ncols" "nrows * ncols < 2147483648"
    and "int (length inp) = nrows * ncols"
    and "int (length out) = nrows * ncols" "set rs \<subseteq> {0..<nrows}"
  shows "\<exists>out'. sobel_rows inp ncols nrows rs out = Some out' \<and> length out' = length out \<and>
           (\<forall>k < length out. out' ! k =
              (if int k div ncols \<in> set rs then sobel_image inp ncols nrows Gx Gy ! k else out ! k))"
  using assms(4,5)
proof (induction rs arbitrary: out)
  case Nil
  then show ?case by simp
next
  case (Cons i rs)
  have i: "0 \<le> i" "i < nrows" and rs: "set rs \<subseteq> {0..<nrows}" using Cons.prems(2) by auto
  have js: "set [0..ncols - 1] \<subseteq> {0..<ncols}" by (simp only: upto_set_int subset_refl)
  from sobel_cols_result [OF i assms(2,3) Cons.prems(1) js] obtain out1 where
    c: "sobel_cols inp ncols nrows i [0..ncols - 1] out = Some out1" "length out1 = length out"
      "\<forall>k < length out. out1 ! k =
         (if int k div ncols = i \<and> int k mod ncols \<in> set [0..ncols - 1]
          then sobel_image inp ncols nrows Gx Gy ! k else out ! k)"
    by blast
  have len: "int (length out1) = nrows * ncols" using c(2) Cons.prems(1) by simp
  from Cons.IH [OF len rs] obtain out' where
    r: "sobel_rows inp ncols nrows rs out1 = Some out'" "length out' = length out1"
      "\<forall>k < length out1. out' ! k =
         (if int k div ncols \<in> set rs then sobel_image inp ncols nrows Gx Gy ! k else out1 ! k)"
    by blast
  have m: "int k mod ncols \<in> set [0..ncols - 1]" for k :: nat
    unfolding upto_set_int using assms(1) by simp
  have "\<forall>k < length out. out' ! k =
          (if int k div ncols \<in> set (i # rs) then sobel_image inp ncols nrows Gx Gy ! k else out ! k)"
  proof (intro allI impI)
    fix k assume k: "k < length out"
    then have k1: "k < length out1" using c(2) by simp
    have a: "out' ! k = (if int k div ncols \<in> set rs then sobel_image inp ncols nrows Gx Gy ! k else out1 ! k)"
      using r(3) k1 by blast
    have b: "out1 ! k = (if int k div ncols = i then sobel_image inp ncols nrows Gx Gy ! k else out ! k)"
      using c(3) k m [of k] by simp
    show "out' ! k =
          (if int k div ncols \<in> set (i # rs) then sobel_image inp ncols nrows Gx Gy ! k else out ! k)"
      by (simp add: a b)
  qed
  then show ?case using c(1,2) r(1,2) by simp
qed

lemma sobel_image_length: "length (sobel_image s ncols nrows gx gy) = nat (nrows * ncols)"
  by (simp add: sobel_image_def)

lemma sobel_rows_all:
  assumes "0 < ncols" "nrows * ncols < 2147483648"
    and "int (length inp) = nrows * ncols"
    and "int (length out) = nrows * ncols" "set rs = {0..<nrows}"
  shows "sobel_rows inp ncols nrows rs out = Some (sobel_image inp ncols nrows Gx Gy)"
proof -
  have sub: "set rs \<subseteq> {0..<nrows}" using assms(5) by simp
  from sobel_rows_result [OF assms(1-4) sub] obtain out' where
    r: "sobel_rows inp ncols nrows rs out = Some out'" "length out' = length out"
      "\<forall>k < length out. out' ! k =
         (if int k div ncols \<in> set rs then sobel_image inp ncols nrows Gx Gy ! k else out ! k)"
    by blast
  have "out' = sobel_image inp ncols nrows Gx Gy"
  proof (rule nth_equalityI)
    show "length out' = length (sobel_image inp ncols nrows Gx Gy)"
      using r(2) assms(4) by (simp add: sobel_image_length)
    fix k assume "k < length out'"
    then have k: "k < length out" using r(2) by simp
    then have "int k < nrows * ncols" using assms(4) by linarith
    then have "int k div ncols < nrows" using assms(1) by (intro int_div_less)
    moreover have "0 \<le> int k div ncols" using assms(1) by (simp add: pos_imp_zdiv_nonneg_iff)
    ultimately have "int k div ncols \<in> set rs" using assms(5) by simp
    then show "out' ! k = sobel_image inp ncols nrows Gx Gy ! k" using r(3) k by simp
  qed
  then show ?thesis using r(1) by simp
qed

lemma mset_upto_set:
  assumes "mset rs = mset [0..nrows - 1]"
  shows "set rs = {0..<nrows}"
proof -
  have "set rs = set [0..nrows - 1]" using assms by (rule mset_eq_setD)
  then show ?thesis by (simp only: upto_set_int)
qed
section \<open>Properties of the GPU kernel\<close>

lemma sdiv_nonneg: "0 \<le> a \<Longrightarrow> 0 < b \<Longrightarrow> a sdiv b = a div (b::int)"
  by (cases "a = 0") (simp_all add: signed_divide_int_def)

lemma smod_nonneg: "0 \<le> a \<Longrightarrow> 0 < b \<Longrightarrow> a smod b = a mod (b::int)"
  by (cases "a = 0") (simp_all add: signed_modulo_int_def)

lemma sobel_image_nth:
  assumes "0 \<le> k" "k < nrows * ncols"
  shows "sobel_image s ncols nrows gx gy ! nat k =
           the (sobel_filtered_pixel s (k div ncols) (k mod ncols) ncols nrows gx gy)"
proof -
  have "nat k < nat (nrows * ncols)" using assms by linarith
  then show ?thesis using assms(1) by (simp add: sobel_image_def)
qed

lemma kernel_loop_result:
  assumes "0 < ncols" "nrows * ncols < 2147483648" "n = nrows * ncols"
    and "int (length s) = n" "length gx = 9" "length gy = 9"
    and "0 < stride" "n + stride \<le> 2147483648"
  shows "0 \<le> idx \<Longrightarrow> int (length d) = n \<Longrightarrow>
         kernel_loop s n nrows ncols gx gy stride (d, tr) idx =
           Some (store_pixels (sobel_image s ncols nrows gx gy) d (stride_indices n stride idx),
                 tr @ map (visit_of ncols) (stride_indices n stride idx))"
proof (induction "nat (n - idx)" arbitrary: idx d tr rule: less_induct)
  case less
  show ?case
  proof (cases "idx < n")
    case False
    then have "stride_indices n stride idx = []" by (simp add: stride_indices.simps)
    then show ?thesis using False
      by (subst kernel_loop.simps) (simp add: store_pixels_def)
  next
    case True
    let ?i = "idx div ncols" and ?j = "idx mod ncols"
    let ?img = "sobel_image s ncols nrows gx gy"
    have i: "0 \<le> ?i" "?i < nrows"
      using less.prems(1) assms(1) True assms(3)
      by (simp_all add: pos_imp_zdiv_nonneg_iff int_div_less)
    have j: "0 \<le> ?j" "?j < ncols" using assms(1) by simp_all
    have idx: "?i * ncols + ?j = idx" by simp
    have "?i * 1 \<le> ?i * ncols" using i(1) assms(1) by (intro mult_left_mono) simp_all
    then have ile: "?i \<le> idx" using idx j(1) by linarith
    have big: "idx < 2147483648" using True assms(2,3) by simp
    have jle: "?j \<le> idx" using less.prems(1) assms(1) by (simp add: zmod_le_nonneg_dividend)
    have "s32 ?i = ?i" using i(1) ile big by (intro s32_id) linarith+
    then have si: "s32 (idx sdiv ncols) = ?i"
      using less.prems(1) assms(1) by (simp add: sdiv_nonneg)
    have "s32 ?j = ?j" using j(1) jle big by (intro s32_id) linarith+
    then have sj: "s32 (idx smod ncols) = ?j"
      using less.prems(1) assms(1) by (simp add: smod_nonneg)
    note oi = out_index [OF i j assms(2)]
    have so: "s32 (s32 (?i * ncols) + ?j) = idx" using oi(1) idx by simp
    obtain g where g: "sobel_filtered_pixel s ?i ?j ncols nrows gx gy = Some g"
      using sobel_filtered_pixel_sum [OF i j assms(2) _ assms(5,6)] assms(3,4) by auto
    have img: "?img ! nat idx = g"
      using sobel_image_nth [of idx nrows ncols s gx gy] less.prems(1) True assms(3) g by simp
    have w: "write_at d idx g = Some (d[nat idx := g])"
      using less.prems True by (simp add: write_at_def)
    have nx: "s32 (idx + stride) = idx + stride"
      using less.prems(1) True assms(7,8) by (intro s32_id) linarith+
    have dec: "nat (n - (idx + stride)) < nat (n - idx)" using True assms(7) by linarith
    have len: "int (length (d[nat idx := g])) = n" using less.prems(2) by simp
    have nn: "0 \<le> idx + stride" using less.prems(1) assms(7) by simp
    note ih = less.hyps [OF dec nn len, of "tr @ [(idx, ?i, ?j)]"]
    have ks: "stride_indices n stride idx = idx # stride_indices n stride (idx + stride)"
      using True assms(7) by (subst stride_indices.simps) simp
    have nz: "ncols \<noteq> 0" using assms(1) by simp
    show ?thesis
      apply (subst kernel_loop.simps)
      apply (simp only: True if_True nz if_False Let_def si sj so sobel_filtered_pixel_gpu_eq g
          option.case fst_conv snd_conv w nx ih ks)
      apply (simp add: store_pixels_def img visit_of_def)
      done
  qed
qed

lemma stride_indices_Nil: "\<not> (idx < n \<and> 0 < stride) \<Longrightarrow> stride_indices n stride idx = []"
  by (subst stride_indices.simps) simp

lemma stride_indices_Cons:
  "idx < n \<Longrightarrow> 0 < stride \<Longrightarrow>
   stride_indices n stride idx = idx # stride_indices n stride (idx + stride)"
  by (subst stride_indices.simps) simp

lemma stride_indices_set:
  assumes "0 < stride"
  shows "set (stride_indices n stride idx) = {k. idx \<le> k \<and> k < n \<and> k mod stride = idx mod stride}"
proof (induction "nat (n - idx)" arbitrary: idx rule: less_induct)
  case less
  show ?case
  proof (cases "idx < n")
    case False
    then show ?thesis by (auto simp add: stride_indices_Nil)
  next
    case True
    have dec: "nat (n - (idx + stride)) < nat (n - idx)" using True assms by linarith
    note ih = less.hyps [OF dec]
    have "{k. idx \<le> k \<and> k < n \<and> k mod stride = idx mod stride} =
          insert idx {k. idx + stride \<le> k \<and> k < n \<and> k mod stride = (idx + stride) mod stride}"
    proof (intro set_eqI iffI)
      fix k assume "k \<in> {k. idx \<le> k \<and> k < n \<and> k mod stride = idx mod stride}"
      then have k: "idx \<le> k" "k < n" "k mod stride = idx mod stride" by simp_all
      show "k \<in> insert idx {k. idx + stride \<le> k \<and> k < n \<and> k mod stride = (idx + stride) mod stride}"
      proof (cases "k = idx")
        case True
        then show ?thesis by simp
      next
        case False
        then have pos: "0 < k - idx" using k(1) by simp
        have "stride dvd k - idx" using k(3) by (simp add: mod_eq_dvd_iff)
        then have "stride \<le> k - idx" using pos by (rule zdvd_imp_le)
        then show ?thesis using k by simp
      qed
    next
      fix k assume "k \<in> insert idx {k. idx + stride \<le> k \<and> k < n \<and> k mod stride = (idx + stride) mod stride}"
      then show "k \<in> {k. idx \<le> k \<and> k < n \<and> k mod stride = idx mod stride}"
        using True assms by auto
    qed
    then show ?thesis using ih by (simp add: stride_indices_Cons [OF True assms])
  qed
qed

lemma stride_indices_distinct:
  assumes "0 < stride"
  shows "distinct (stride_indices n stride idx)"
proof (induction "nat (n - idx)" arbitrary: idx rule: less_induct)
  case less
  show ?case
  proof (cases "idx < n")
    case False
    then show ?thesis by (simp add: stride_indices_Nil)
  next
    case True
    have dec: "nat (n - (idx + stride)) < nat (n - idx)" using True assms by linarith
    have "idx \<notin> set (stride_indices n stride (idx + stride))"
      using assms by (simp add: stride_indices_set)
    then show ?thesis using less.hyps [OF dec] by (simp add: stride_indices_Cons [OF True assms])
  qed
qed

lemma stride_indices_unit:
  assumes "0 < stride" "0 \<le> u" "u < stride"
  shows "set (stride_indices n stride u) = {k. 0 \<le> k \<and> k < n \<and> k mod stride = u}"
proof -
  have u: "u mod stride = u" using assms by simp
  have "u \<le> k" if "0 \<le> k" "k mod stride = u" for k
  proof -
    have "k mod stride \<le> k" using that(1) assms(1) by (simp add: zmod_le_nonneg_dividend)
    then show ?thesis using that(2) by simp
  qed
  then show ?thesis using assms(2) by (auto simp add: stride_indices_set [OF assms(1)] u)
qed

lemma store_pixels_length: "length (store_pixels img d ks) = length d"
  by (induction ks arbitrary: d) (simp_all add: store_pixels_def)

lemma store_pixels_append:
  "store_pixels img d (ks @ ls) = store_pixels img (store_pixels img d ks) ls"
  by (simp add: store_pixels_def)

lemma store_pixels_nth:
  assumes "\<forall>k \<in> set ks. 0 \<le> k" "j < length d"
  shows "store_pixels img d ks ! j = (if int j \<in> set ks then img ! j else d ! j)"
  using assms
proof (induction ks arbitrary: d)
  case Nil
  then show ?case by (simp add: store_pixels_def)
next
  case (Cons k ks)
  have k: "0 \<le> k" and ks: "\<forall>k \<in> set ks. 0 \<le> k" using Cons.prems(1) by simp_all
  have len: "j < length (d[nat k := img ! nat k])" using Cons.prems(2) by simp
  have "store_pixels img d (k # ks) = store_pixels img (d[nat k := img ! nat k]) ks"
    by (simp add: store_pixels_def)
  then have "store_pixels img d (k # ks) ! j =
      (if int j \<in> set ks then img ! j else (d[nat k := img ! nat k]) ! j)"
    using Cons.IH [OF ks len] by simp
  moreover have "(d[nat k := img ! nat k]) ! j = (if int j = k then img ! j else d ! j)"
    using Cons.prems(2) k by (auto simp add: nth_list_update)
  ultimately show ?case by auto
qed

lemma unit_id_range:
  assumes "0 \<le> fst u" "fst u < blocks" "0 \<le> snd u" "snd u < tpb"
  shows "0 \<le> unit_id tpb u" and "unit_id tpb u < tpb * blocks"
    and "0 \<le> fst u * tpb" and "fst u * tpb < tpb * blocks"
  using index_bound [OF assms] by (simp_all add: unit_id_def mult.commute add.commute)

lemma sobel_kernel_gpu_result:
  assumes "0 < ncols" "nrows * ncols < 2147483648" "n = nrows * ncols"
    and "int (length s) = n" "length gx = 9" "length gy = 9"
    and "n + tpb * blocks \<le> 2147483648" "1 \<le> n"
    and "0 \<le> fst u" "fst u < blocks" "0 \<le> snd u" "snd u < tpb"
    and "int (length d) = n"
  shows "sobel_kernel_gpu s n nrows ncols gx gy (snd u) (fst u) tpb blocks (d, tr) =
           Some (store_pixels (sobel_image s ncols nrows gx gy) d (unit_indices n blocks tpb u),
                 tr @ map (visit_of ncols) (unit_indices n blocks tpb u))"
proof -
  note r = unit_id_range [OF assms(9-12)]
  have st: "0 < tpb * blocks" using r(1,2) by linarith
  have lim: "tpb * blocks < 2147483648" using assms(7,8) by linarith
  have a: "u32 (fst u * tpb) = fst u * tpb" using r(3,4) lim by (intro u32_id) linarith+
  have b: "u32 (snd u + fst u * tpb) = unit_id tpb u"
    unfolding unit_id_def [symmetric] using r(1,2) lim by (intro u32_id) linarith+
  have c: "s32 (unit_id tpb u) = unit_id tpb u" using r(1,2) lim by (intro s32_id) linarith+
  have d: "u32 (tpb * blocks) = tpb * blocks" using st lim by (intro u32_id) linarith+
  have e: "s32 (tpb * blocks) = tpb * blocks" using st lim by (intro s32_id) linarith+
  show ?thesis
    unfolding sobel_kernel_gpu_def Let_def a b c d e unit_indices_def
    by (rule kernel_loop_result [OF assms(1-6) st assms(7) r(1) assms(13)])
qed

lemma launch_units_result:
  assumes "0 < ncols" "nrows * ncols < 2147483648" "n = nrows * ncols"
    and "int (length s) = n" "length gx = 9" "length gy = 9"
    and "n + tpb * blocks \<le> 2147483648" "1 \<le> n"
  shows "\<forall>u \<in> set us. 0 \<le> fst u \<and> fst u < blocks \<and> 0 \<le> snd u \<and> snd u < tpb \<Longrightarrow>
         int (length d) = n \<Longrightarrow>
         launch_units s n nrows ncols gx gy blocks tpb us (d, tr) =
           Some (store_pixels (sobel_image s ncols nrows gx gy) d (concat (map (unit_indices n blocks tpb) us)),
                 tr @ map (visit_of ncols) (concat (map (unit_indices n blocks tpb) us)))"
proof (induction us arbitrary: d tr)
  case Nil
  show ?case by (simp add: store_pixels_def)
next
  case (Cons u us)
  have u: "0 \<le> fst u" "fst u < blocks" "0 \<le> snd u" "snd u < tpb"
    and us: "\<forall>u \<in> set us. 0 \<le> fst u \<and> fst u < blocks \<and> 0 \<le> snd u \<and> snd u < tpb"
    using Cons.prems(1) by simp_all
  note k = sobel_kernel_gpu_result [OF assms u Cons.prems(2), of tr]
  let ?d = "store_pixels (sobel_image s ncols nrows gx gy) d (unit_indices n blocks tpb u)"
  have len: "int (length ?d) = n" using Cons.prems(2) by (simp add: store_pixels_length)
  note ih = Cons.IH [OF us len, of "tr @ map (visit_of ncols) (unit_indices n blocks tpb u)"]
  show ?case by (simp add: k ih store_pixels_append)
qed

lemma grid_units_product: "grid_units blocks tpb = List.product [0..blocks - 1] [0..tpb - 1]"
  by (simp add: grid_units_def product_concat_map)

lemma grid_units_set: "set (grid_units blocks tpb) = {0..<blocks} \<times> {0..<tpb}"
  by (simp only: grid_units_product set_product upto_set_int)

lemma grid_units_distinct: "distinct (grid_units blocks tpb)"
  by (simp only: grid_units_product distinct_product distinct_upto)

lemma unit_id_inj: 
  assumes "0 < tpb"
  shows "inj_on (unit_id tpb) ({0..<blocks} \<times> {0..<tpb})"
proof (rule inj_onI)
  fix u v assume u: "u \<in> {0..<blocks} \<times> {0..<tpb}" and v: "v \<in> {0..<blocks} \<times> {0..<tpb}"
    and e: "unit_id tpb u = unit_id tpb v"
  have su: "0 \<le> snd u" "snd u < tpb" using u by auto
  have sv: "0 \<le> snd v" "snd v < tpb" using v by auto
  have "(fst u * tpb + snd u) div tpb = fst u" "(fst u * tpb + snd u) mod tpb = snd u"
    using su by simp_all
  moreover have "(fst v * tpb + snd v) div tpb = fst v" "(fst v * tpb + snd v) mod tpb = snd v"
    using sv by simp_all
  moreover have "fst u * tpb + snd u = fst v * tpb + snd v" using e by (simp add: unit_id_def)
  ultimately have "fst u = fst v" "snd u = snd v" by metis+
  then show "u = v" by (simp add: prod_eq_iff)
qed

lemma unit_id_image:
  assumes "0 < tpb"
  shows "unit_id tpb ` ({0..<blocks} \<times> {0..<tpb}) = {0..<tpb * blocks}"
proof (intro set_eqI iffI)
  fix k assume "k \<in> unit_id tpb ` ({0..<blocks} \<times> {0..<tpb})"
  then obtain u where u: "u \<in> {0..<blocks} \<times> {0..<tpb}" "k = unit_id tpb u" by blast
  have "0 \<le> fst u" "fst u < blocks" "0 \<le> snd u" "snd u < tpb" using u(1) by auto
  from unit_id_range(1,2) [OF this] show "k \<in> {0..<tpb * blocks}" using u(2) by simp
next
  fix k assume "k \<in> {0..<tpb * blocks}"
  then have k: "0 \<le> k" "k < blocks * tpb" by (simp_all add: mult.commute)
  have "k div tpb < blocks" using assms k(2) by (rule int_div_less)
  moreover have "0 \<le> k div tpb" using k(1) assms by (simp add: pos_imp_zdiv_nonneg_iff)
  moreover have "0 \<le> k mod tpb" "k mod tpb < tpb" using assms by simp_all
  ultimately have "(k div tpb, k mod tpb) \<in> {0..<blocks} \<times> {0..<tpb}" by simp
  moreover have "unit_id tpb (k div tpb, k mod tpb) = k" by (simp add: unit_id_def)
  ultimately show "k \<in> unit_id tpb ` ({0..<blocks} \<times> {0..<tpb})" by (metis imageI)
qed

lemma units_cover_set:
  assumes "0 < tpb * blocks"
    and "\<forall>u \<in> set us. 0 \<le> unit_id tpb u \<and> unit_id tpb u < tpb * blocks"
  shows "set (concat (map (unit_indices n blocks tpb) us)) =
           {k. 0 \<le> k \<and> k < n \<and> k mod (tpb * blocks) \<in> unit_id tpb ` set us}"
proof -
  have "set (unit_indices n blocks tpb u) = {k. 0 \<le> k \<and> k < n \<and> k mod (tpb * blocks) = unit_id tpb u}"
    if "u \<in> set us" for u
    unfolding unit_indices_def using assms(2) that by (intro stride_indices_unit [OF assms(1)]) auto
  then show ?thesis by auto
qed

lemma units_cover_distinct:
  assumes "0 < tpb * blocks"
  shows "\<forall>u \<in> set us. 0 \<le> unit_id tpb u \<and> unit_id tpb u < tpb * blocks \<Longrightarrow>
         distinct (map (unit_id tpb) us) \<Longrightarrow>
         distinct (concat (map (unit_indices n blocks tpb) us))"
proof (induction us)
  case Nil
  show ?case by simp
next
  case (Cons u us)
  have u: "0 \<le> unit_id tpb u" "unit_id tpb u < tpb * blocks"
    and us: "\<forall>u \<in> set us. 0 \<le> unit_id tpb u \<and> unit_id tpb u < tpb * blocks"
    using Cons.prems(1) by simp_all
  have d: "unit_id tpb u \<notin> unit_id tpb ` set us" "distinct (map (unit_id tpb) us)"
    using Cons.prems(2) by simp_all
  have a: "distinct (unit_indices n blocks tpb u)"
    unfolding unit_indices_def by (rule stride_indices_distinct [OF assms])
  have b: "set (unit_indices n blocks tpb u) = {k. 0 \<le> k \<and> k < n \<and> k mod (tpb * blocks) = unit_id tpb u}"
    unfolding unit_indices_def by (rule stride_indices_unit [OF assms u])
  have c: "set (unit_indices n blocks tpb u) \<inter> set (concat (map (unit_indices n blocks tpb) us)) = {}"
    unfolding units_cover_set [OF assms us] b using d(1) by (auto simp add: image_iff)
  show ?case using a c Cons.IH [OF us d(2)] by simp
qed


lemma upto_distinct_mset:
  assumes "distinct ks" "set ks = {0..<n::int}"
  shows "mset ks = mset [0..n - 1]"
proof -
  have "set ks = set [0..n - 1]" using assms(2) by (simp only: upto_set_int)
  then show ?thesis using assms(1) distinct_upto set_eq_iff_mset_eq_distinct by blast
qed

lemma store_pixels_all:
  assumes "int (length d) = n" "length img = length d" "set ks = {0..<n}"
  shows "store_pixels img d ks = img"
proof (rule nth_equalityI)
  show "length (store_pixels img d ks) = length img" using assms(2) by (simp add: store_pixels_length)
  fix j assume "j < length (store_pixels img d ks)"
  then have j: "j < length d" by (simp add: store_pixels_length)
  have nn: "\<forall>k \<in> set ks. 0 \<le> k" using assms(3) by simp
  have "int j \<in> set ks" using j assms(1,3) by simp
  then show "store_pixels img d ks ! j = img ! j" using store_pixels_nth [OF nn j] by simp
qed

lemma launch_units_all:
  assumes "0 < ncols" "n = nrows * ncols"
    and "int (length s) = n" "length gx = 9" "length gy = 9"
    and "n + tpb * blocks \<le> 2147483648" "1 \<le> n" "1 \<le> blocks" "1 \<le> tpb"
    and "int (length d) = n" "mset us = mset (grid_units blocks tpb)"
  shows "launch_units s n nrows ncols gx gy blocks tpb us (d, []) =
           Some (sobel_image s ncols nrows gx gy,
                 map (visit_of ncols) (concat (map (unit_indices n blocks tpb) us)))"
    and "mset (concat (map (unit_indices n blocks tpb) us)) = mset [0..n - 1]"
proof -
  have tpb: "0 < tpb" and st: "0 < tpb * blocks" using assms(8,9) by simp_all
  have lim: "nrows * ncols < 2147483648" using assms(2,6) st by linarith
  have set_us: "set us = {0..<blocks} \<times> {0..<tpb}"
    using mset_eq_setD [OF assms(11)] by (simp only: grid_units_set)
  have dist_us: "distinct us"
    using mset_eq_imp_distinct_iff [OF assms(11)] grid_units_distinct by simp
  have rng: "\<forall>u \<in> set us. 0 \<le> fst u \<and> fst u < blocks \<and> 0 \<le> snd u \<and> snd u < tpb"
    unfolding set_us by auto
  have ids: "\<forall>u \<in> set us. 0 \<le> unit_id tpb u \<and> unit_id tpb u < tpb * blocks"
    using rng unit_id_range(1,2) by blast
  have img: "unit_id tpb ` set us = {0..<tpb * blocks}"
    unfolding set_us by (rule unit_id_image [OF tpb])
  have dist_ids: "distinct (map (unit_id tpb) us)"
    unfolding distinct_map set_us using dist_us unit_id_inj [OF tpb] by simp
  let ?ks = "concat (map (unit_indices n blocks tpb) us)"
  have "k mod (tpb * blocks) \<in> {0..<tpb * blocks}" for k using st by simp
  then have set_ks: "set ?ks = {0..<n}"
    unfolding units_cover_set [OF st ids] img by auto
  have dist_ks: "distinct ?ks" by (rule units_cover_distinct [OF st ids dist_ids])
  show "mset ?ks = mset [0..n - 1]" by (rule upto_distinct_mset [OF dist_ks set_ks])
  have len: "length (sobel_image s ncols nrows gx gy) = length d"
    using assms(2,10) by (simp add: sobel_image_length)
  show "launch_units s n nrows ncols gx gy blocks tpb us (d, []) =
           Some (sobel_image s ncols nrows gx gy, map (visit_of ncols) ?ks)"
    using launch_units_result [OF assms(1) lim assms(2-7) rng assms(10), of "[]"]
    by (simp add: store_pixels_all [OF assms(10) len set_ks])
qed

lemma kernel_loop_stride_zero:
  assumes "0 < n"
  shows "kernel_loop s n nrows ncols gx gy 0 st 0 = None"
proof (rule ccontr)
  assume "kernel_loop s n nrows ncols gx gy 0 st 0 \<noteq> None"
  then obtain y where y: "kernel_loop s n nrows ncols gx gy 0 st 0 = Some y" by auto
  have "\<not> ((0::int) = 0 \<and> (0::int) = 0 \<and> 0 < n)"
    by (rule kernel_loop.raw_induct
          [where P = "\<lambda>s n nrows ncols gx gy stride st idx y. \<not> (stride = 0 \<and> idx = 0 \<and> 0 < n)",
           OF _ y])
       (auto simp add: s32_def Let_def split: if_splits option.splits)
  then show False using assms by simp
qed

lemma grid_units_first:
  assumes "1 \<le> blocks" "1 \<le> tpb"
  shows "\<exists>rest. grid_units blocks tpb = (0, 0) # rest"
proof -
  have b: "[0..blocks - 1] = 0 # [0 + 1..blocks - 1]" using assms(1) by (intro upto_rec1) simp
  have t: "[0..tpb - 1] = 0 # [0 + 1..tpb - 1]" using assms(2) by (intro upto_rec1) simp
  show ?thesis unfolding grid_units_def by (subst b, subst t) simp
qed

lemma launch_stride_zero:
  assumes "1 \<le> blocks" "1 \<le> tpb" "u32 (tpb * blocks) = 0" "0 < n"
  shows "launch blocks tpb s d n nrows ncols gx gy = None"
proof -
  obtain rest where r: "grid_units blocks tpb = (0, 0) # rest"
    using grid_units_first [OF assms(1,2)] by blast
  have z: "s32 0 = 0" "u32 0 = 0" by (simp_all add: s32_def u32_def)
  have "sobel_kernel_gpu s n nrows ncols gx gy 0 0 tpb blocks (d, []) = None"
    unfolding sobel_kernel_gpu_def Let_def assms(3)
    by (simp add: z kernel_loop_stride_zero [OF assms(4)])
  then show ?thesis by (simp add: launch_def r)
qed

section \<open>The claims about the evaluator\<close>

text \<open>
  Claim C2. For a pixel \<open>(row, col)\<close> of an image of \<open>rows * cols\<close> samples (a number
  that an \<open>int\<close> holds) both evaluators return the square root of \<open>X * X + Y * Y\<close>,
  where \<open>X\<close> and \<open>Y\<close> are the sums, from \<open>0.0\<close> and in the order of the loop nest, of
  \<open>g[(dy + 1) * 3 + (dx + 1)] * s[(row + dy) * cols + (col + dx)]\<close> over exactly those
  offsets of \<open>{-1, 0, 1}\<^sup>2\<close> whose neighbour lies in the image, each taken once; a
  neighbour outside the image adds nothing to either sum. At the corner \<open>(0, 0)\<close> of an
  image with at least two rows and two columns these are the four offsets
  \<open>(0, 0), (0, 1), (1, 0), (1, 1)\<close>.
\<close>

theorem sobel_filtered_pixel_in_bounds_sum:
  assumes "0 \<le> row" "row < rows" "0 \<le> col" "col < cols" "rows * cols < 2147483648"
    and "int (length s) = rows * cols" "length gx = 9" "length gy = 9"
  shows "sobel_filtered_pixel s row col cols rows gx gy =
           Some (let X = weighted_sum gx s row col cols (Finite False 0 0) (contributing row col rows cols);
                     Y = weighted_sum gy s row col cols (Finite False 0 0) (contributing row col rows cols)
                 in fsqrt binary32 (fadd binary32 (fmul binary32 X X) (fmul binary32 Y Y)))
         \<and> sobel_filtered_pixel_gpu s row col cols rows gx gy = sobel_filtered_pixel s row col cols rows gx gy
         \<and> set (contributing row col rows cols) =
             {(dy, dx). dy \<in> {- 1, 0, 1} \<and> dx \<in> {- 1, 0, 1} \<and>
                0 \<le> row + dy \<and> row + dy < rows \<and> 0 \<le> col + dx \<and> col + dx < cols}
         \<and> distinct (contributing row col rows cols)
         \<and> (row = 0 \<and> col = 0 \<and> 2 \<le> rows \<and> 2 \<le> cols \<longrightarrow>
              contributing row col rows cols = [(0, 0), (0, 1), (1, 0), (1, 1)])"
proof (intro conjI impI)
  show "sobel_filtered_pixel s row col cols rows gx gy =
           Some (let X = weighted_sum gx s row col cols (Finite False 0 0) (contributing row col rows cols);
                     Y = weighted_sum gy s row col cols (Finite False 0 0) (contributing row col rows cols)
                 in fsqrt binary32 (fadd binary32 (fmul binary32 X X) (fmul binary32 Y Y)))"
    by (rule sobel_filtered_pixel_sum [OF assms])
  show "sobel_filtered_pixel_gpu s row col cols rows gx gy = sobel_filtered_pixel s row col cols rows gx gy"
    by (rule sobel_filtered_pixel_gpu_eq)
  show "set (contributing row col rows cols) =
             {(dy, dx). dy \<in> {- 1, 0, 1} \<and> dx \<in> {- 1, 0, 1} \<and>
                0 \<le> row + dy \<and> row + dy < rows \<and> 0 \<le> col + dx \<and> col + dx < cols}"
    by (rule contributing_set)
  show "distinct (contributing row col rows cols)"
    by (rule contributing_distinct)
  assume "row = 0 \<and> col = 0 \<and> 2 \<le> rows \<and> 2 \<le> cols"
  then show "contributing row col rows cols = [(0, 0), (0, 1), (1, 0), (1, 1)]"
    by (simp add: contributing_corner)
qed

theorem sobel_filtered_pixel_in_bounds_sum_witness:
  "(0::int) \<le> 0 \<and> (0::int) < 2 \<and> (2::int) * 2 < 2147483648
   \<and> int (length (replicate 4 (Finite False 1 0))) = 2 * 2 \<and> length Gx = 9 \<and> length Gy = 9
   \<and> sobel_filtered_pixel (replicate 4 (Finite False 1 0)) 0 0 2 2 Gx Gy =
       Some (let X = weighted_sum Gx (replicate 4 (Finite False 1 0)) 0 0 2 (Finite False 0 0) (contributing 0 0 2 2);
                 Y = weighted_sum Gy (replicate 4 (Finite False 1 0)) 0 0 2 (Finite False 0 0) (contributing 0 0 2 2)
             in fsqrt binary32 (fadd binary32 (fmul binary32 X X) (fmul binary32 Y Y)))
   \<and> contributing 0 0 2 2 = [(0, 0), (0, 1), (1, 0), (1, 1)]"
proof -
  have h: "(0::int) \<le> 0" "(0::int) < 2" "(2::int) * 2 < 2147483648"
    "int (length (replicate 4 (Finite False 1 0))) = 2 * 2" "length Gx = 9" "length Gy = 9"
    by (simp_all add: Gx_def Gy_def)
  note w = sobel_filtered_pixel_in_bounds_sum [OF h(1,2,1,2,3,4,5,6)]
  note a = w [THEN conjunct1]
  have c: "contributing 0 0 2 2 = [(0, 0), (0, 1), (1, 0), (1, 1)]"
    using w [THEN conjunct2, THEN conjunct2, THEN conjunct2, THEN conjunct2] by simp
  show ?thesis
    by (intro conjI) (rule h a c)+
qed

text \<open>
  Claim C5. For a source buffer of \<open>rows * cols\<close> samples (a number that an \<open>int\<close>
  holds) and a pixel of the image, every offset that passes the bounds check is read at
  the index \<open>neighbor_row * cols + neighbor_col\<close>, computed without wrap-around, which
  lies in \<open>[0, rows * cols)\<close>, so that the read is inside the buffer; neither evaluator
  reaches a read out of range.
\<close>

theorem sobel_filtered_pixel_reads_in_range:
  assumes "0 \<le> row" "row < rows" "0 \<le> col" "col < cols" "rows * cols < 2147483648"
    and "int (length s) = rows * cols" "length gx = 9" "length gy = 9"
  shows "(\<forall>dy \<in> {- 1, 0, 1}. \<forall>dx \<in> {- 1, 0, 1}.
            0 \<le> s32 (row + dy) \<and> s32 (row + dy) < rows \<and> 0 \<le> s32 (col + dx) \<and> s32 (col + dx) < cols \<longrightarrow>
              s32 (s32 (s32 (row + dy) * cols) + s32 (col + dx)) = (row + dy) * cols + (col + dx)
              \<and> 0 \<le> row + dy \<and> row + dy < rows \<and> 0 \<le> col + dx \<and> col + dx < cols
              \<and> 0 \<le> (row + dy) * cols + (col + dx) \<and> (row + dy) * cols + (col + dx) < rows * cols
              \<and> read_at s (s32 (s32 (s32 (row + dy) * cols) + s32 (col + dx))) \<noteq> None)
         \<and> sobel_filtered_pixel s row col cols rows gx gy \<noteq> None
         \<and> sobel_filtered_pixel_gpu s row col cols rows gx gy \<noteq> None"
proof (intro conjI ballI impI)
  fix dy dx :: int
  assume d: "dy \<in> {- 1, 0, 1}" "dx \<in> {- 1, 0, 1}"
    and c: "0 \<le> s32 (row + dy) \<and> s32 (row + dy) < rows \<and> 0 \<le> s32 (col + dx) \<and> s32 (col + dx) < cols"
  note n = neighbor_index_in_range [OF assms(1-5) d]
  from c have c': "0 \<le> row + dy \<and> row + dy < rows \<and> 0 \<le> col + dx \<and> col + dx < cols"
    by (simp add: n(1,2))
  note k = n(3) [OF c']
  show "s32 (s32 (s32 (row + dy) * cols) + s32 (col + dx)) = (row + dy) * cols + (col + dx)"
    using k by (simp add: n(1,2))
  then show "read_at s (s32 (s32 (s32 (row + dy) * cols) + s32 (col + dx))) \<noteq> None"
    using k assms(6) by (simp add: read_at_def)
  show "0 \<le> row + dy" "row + dy < rows" "0 \<le> col + dx" "col + dx < cols" using c' by simp_all
  show "0 \<le> (row + dy) * cols + (col + dx)" "(row + dy) * cols + (col + dx) < rows * cols"
    using k by simp_all
next
  show "sobel_filtered_pixel s row col cols rows gx gy \<noteq> None"
    by (simp add: sobel_filtered_pixel_sum [OF assms])
  then show "sobel_filtered_pixel_gpu s row col cols rows gx gy \<noteq> None"
    by (simp add: sobel_filtered_pixel_gpu_eq)
qed

theorem sobel_filtered_pixel_reads_in_range_witness:
  "(0::int) \<le> 1 \<and> (1::int) < 2 \<and> (2::int) * 2 < 2147483648
   \<and> int (length (replicate 4 (Finite False 1 0))) = 2 * 2 \<and> length Gx = 9 \<and> length Gy = 9
   \<and> s32 (s32 (s32 (1 + 0) * 2) + s32 (1 + - 1)) = 2
   \<and> read_at (replicate 4 (Finite False 1 0)) 2 \<noteq> None
   \<and> sobel_filtered_pixel (replicate 4 (Finite False 1 0)) 1 1 2 2 Gx Gy \<noteq> None
   \<and> sobel_filtered_pixel_gpu (replicate 4 (Finite False 1 0)) 1 1 2 2 Gx Gy \<noteq> None"
proof -
  have h: "(0::int) \<le> 1" "(1::int) < 2" "(2::int) * 2 < 2147483648"
    "int (length (replicate 4 (Finite False 1 0))) = 2 * 2" "length Gx = 9" "length Gy = 9"
    by (simp_all add: Gx_def Gy_def)
  have s: "s32 (s32 (s32 (1 + 0) * 2) + s32 (1 + - 1)) = 2" by (simp add: s32_def)
  have r: "read_at (replicate 4 (Finite False 1 0)) 2 \<noteq> None" by (simp add: read_at_def)
  note w = sobel_filtered_pixel_reads_in_range [OF h(1,2,1,2,3,4,5,6)]
  note a = w [THEN conjunct2, THEN conjunct1]
  note b = w [THEN conjunct2, THEN conjunct2]
  show ?thesis
    by (intro conjI) (rule h s r a b)+
qed

section \<open>The claims about the drivers\<close>

lemma sweeps_all:
  assumes "0 < ncols" "nrows * ncols < 2147483648" "int (length inp) = nrows * ncols"
  shows "rss \<noteq> [] \<Longrightarrow> \<forall>rs \<in> set rss. set rs = {0..<nrows} \<Longrightarrow> int (length out) = nrows * ncols \<Longrightarrow>
         sweeps rss inp out ncols nrows = Some (sobel_image inp ncols nrows Gx Gy)"
proof (induction rss arbitrary: out)
  case Nil
  then show ?case by simp
next
  case (Cons rs rss)
  have rs: "set rs = {0..<nrows}" using Cons.prems(2) by simp
  note one = sobel_rows_all [OF assms Cons.prems(3) rs]
  have len: "int (length (sobel_image inp ncols nrows Gx Gy)) = nrows * ncols"
    using Cons.prems(3) by (simp add: sobel_image_length)
  show ?case
  proof (cases "rss = []")
    case True
    then show ?thesis by (simp add: do_sobel_filtering_def one)
  next
    case False
    have "\<forall>rs \<in> set rss. set rs = {0..<nrows}" using Cons.prems(2) by simp
    from Cons.IH [OF False this len] show ?thesis by (simp add: do_sobel_filtering_def one)
  qed
qed

text \<open>
  Claim C10. The sweep writes every place of the destination from the source alone: for
  every order of the row iterations that carries out each row once, the result is the
  image of the evaluator's values, whatever the destination held before; and sweeping
  again and again into the same destination, once for each of a non-empty list of such
  orders (the driver's thread counts 1, 2, 4, 8, 16), leaves what a single sweep into any
  destination leaves.
\<close>

theorem sweeps_idempotent:
  assumes "0 < ncols" "nrows * ncols < 2147483648" "int (length inp) = nrows * ncols"
    and "int (length out) = nrows * ncols" "int (length out') = nrows * ncols"
    and "rss \<noteq> []" "\<forall>rs \<in> set rss. mset rs = mset [0..nrows - 1]"
    and "mset rs1 = mset [0..nrows - 1]"
  shows "sweeps rss inp out ncols nrows = do_sobel_filtering rs1 inp out' ncols nrows
         \<and> do_sobel_filtering rs1 inp out' ncols nrows = Some (sobel_image inp ncols nrows Gx Gy)"
proof -
  have a: "\<forall>rs \<in> set rss. set rs = {0..<nrows}" using assms(7) mset_upto_set by blast
  have b: "set rs1 = {0..<nrows}" using assms(8) by (rule mset_upto_set)
  show ?thesis
    by (simp add: sweeps_all [OF assms(1-3,6) a assms(4)] do_sobel_filtering_def
        sobel_rows_all [OF assms(1-3,5) b])
qed

theorem sweeps_idempotent_witness:
  "(0::int) < 2 \<and> (2::int) * 2 < 2147483648
   \<and> int (length (replicate 4 (Finite False 1 0))) = 2 * 2
   \<and> int (length (replicate 4 NaN)) = 2 * 2 \<and> int (length (replicate 4 (Infinity True))) = 2 * 2
   \<and> [[0, 1], [1, 0::int]] \<noteq> [] \<and> mset [0, 1] = mset [0..2 - 1] \<and> mset [1, 0] = mset [0..2 - 1]
   \<and> sweeps [[0, 1], [1, 0]] (replicate 4 (Finite False 1 0)) (replicate 4 NaN) 2 2 =
       do_sobel_filtering [0, 1] (replicate 4 (Finite False 1 0)) (replicate 4 (Infinity True)) 2 2"
proof -
  have u: "[0..1] = [0, 1::int]" by (simp add: upto.simps)
  have h: "(0::int) < 2" "(2::int) * 2 < 2147483648"
    "int (length (replicate 4 (Finite False 1 0))) = 2 * 2"
    "int (length (replicate 4 NaN)) = 2 * 2" "int (length (replicate 4 (Infinity True))) = 2 * 2"
    "[[0, 1], [1, 0::int]] \<noteq> []" "\<forall>rs \<in> set [[0, 1], [1, 0]]. mset rs = mset [0..2 - 1]"
    "mset [0, 1] = mset [0..2 - 1]"
    by (simp_all add: u)
  have p: "mset [1, 0] = mset [0..2 - 1]" by (simp add: u)
  note w = sweeps_idempotent [OF h, THEN conjunct1]
  show ?thesis by (intro conjI) (rule h p w)+
qed

text \<open>
  Claim C3, as amended. For \<open>n = rows * cols \<ge> 1\<close> and a launch shape with
  \<open>blocks \<ge> 1\<close>, \<open>threadsPerBlock \<ge> 1\<close> and \<open>n + blocks * threadsPerBlock \<le> 2\<^sup>3\<^sup>1\<close>, so that
  neither the stride nor an index plus the stride leaves the range of \<open>int\<close>, the units of
  the grid, run in any order, all return, every linear index of \<open>[0, n)\<close> is visited
  exactly once across the units, and the row and column handed to the evaluator at
  index \<open>idx\<close> are \<open>idx / cols\<close> and \<open>idx % cols\<close>.
\<close>

theorem grid_stride_visits_once:
  assumes "1 \<le> n" "1 \<le> blocks" "1 \<le> tpb" "n + tpb * blocks \<le> 2147483648"
    and "n = nrows * ncols" "0 < ncols"
    and "int (length s) = n" "int (length d) = n" "length gx = 9" "length gy = 9"
    and "mset us = mset (grid_units blocks tpb)"
  shows "\<exists>d' tr. launch_units s n nrows ncols gx gy blocks tpb us (d, []) = Some (d', tr)
           \<and> mset (map fst tr) = mset [0..n - 1]
           \<and> (\<forall>v \<in> set tr. snd v = (fst v div ncols, fst v mod ncols))"
proof -
  note l = launch_units_all [OF assms(6,5,7,9,10,4,1,2,3,8,11)]
  let ?ks = "concat (map (unit_indices n blocks tpb) us)"
  have f: "map fst (map (visit_of ncols) ?ks) = ?ks"
    by (simp add: visit_of_def comp_def)
  have m: "mset (map fst (map (visit_of ncols) ?ks)) = mset [0..n - 1]"
    unfolding f by (rule l(2))
  have v: "\<forall>v \<in> set (map (visit_of ncols) ?ks). snd v = (fst v div ncols, fst v mod ncols)"
    by (auto simp add: visit_of_def)
  show ?thesis using l(1) m v by blast
qed

theorem grid_stride_visits_once_witness:
  "(1::int) \<le> 4 \<and> (1::int) \<le> 1 \<and> (1::int) \<le> 2 \<and> (4::int) + 2 * 1 \<le> 2147483648
   \<and> (4::int) = 2 * 2 \<and> (0::int) < 2
   \<and> int (length (replicate 4 (Finite False 1 0))) = 4 \<and> int (length (replicate 4 NaN)) = 4
   \<and> length Gx = 9 \<and> length Gy = 9
   \<and> mset [(0, 1), (0, 0)] = mset (grid_units 1 2)
   \<and> (\<exists>d' tr. launch_units (replicate 4 (Finite False 1 0)) 4 2 2 Gx Gy 1 2 [(0, 1), (0, 0)]
                   (replicate 4 NaN, []) = Some (d', tr)
           \<and> mset (map fst tr) = mset [0..4 - 1])"
proof -
  have g: "grid_units 1 2 = [(0, 0), (0, 1)]" by (simp add: grid_units_def upto.simps)
  have h: "(1::int) \<le> 4" "(1::int) \<le> 1" "(1::int) \<le> 2" "(4::int) + 2 * 1 \<le> 2147483648"
    "(4::int) = 2 * 2" "(0::int) < 2"
    "int (length (replicate 4 (Finite False 1 0))) = 4" "int (length (replicate 4 NaN)) = 4"
    "length Gx = 9" "length Gy = 9"
    "mset [(0, 1), (0, 0)] = mset (grid_units 1 2)"
    by (simp_all add: g Gx_def Gy_def)
  from grid_stride_visits_once [OF h]
  have w: "\<exists>d' tr. launch_units (replicate 4 (Finite False 1 0)) 4 2 2 Gx Gy 1 2 [(0, 1), (0, 0)]
                   (replicate 4 NaN, []) = Some (d', tr)
           \<and> mset (map fst tr) = mset [0..4 - 1]"
    by blast
  show ?thesis by (intro conjI) (rule h w)+
qed

lemma pixel_1x1:
  "sobel_filtered_pixel_gpu [Finite False 1 0] 0 0 1 1 Gx Gy = Some (Finite False 0 0)"
  by code_simp

lemma kernel_loop_revisit:
  "kernel_loop [Finite False 1 0] 1 1 1 Gx Gy 0 (d # ds, tr) 0 =
   kernel_loop [Finite False 1 0] 1 1 1 Gx Gy 0 (Finite False 0 0 # ds, tr @ [(0, 0, 0)]) 0"
  by (subst kernel_loop.simps) (simp add: s32_def pixel_1x1 write_at_def del: One_nat_def)

theorem grid_stride_visits_once_counterexample:
  "sobel_kernel_gpu [Finite False 1 0] 1 1 1 Gx Gy 0 0 1024 4194304 ([NaN], []) =
     kernel_loop [Finite False 1 0] 1 1 1 Gx Gy 0 ([Finite False 0 0], [(0, 0, 0), (0, 0, 0)]) 0
   \<and> sobel_kernel_gpu [Finite False 1 0] 1 1 1 Gx Gy 0 0 1024 4194304 ([NaN], []) = None"
proof -
  have k: "sobel_kernel_gpu [Finite False 1 0] 1 1 1 Gx Gy 0 0 1024 4194304 ([NaN], []) =
           kernel_loop [Finite False 1 0] 1 1 1 Gx Gy 0 ([NaN], []) 0"
    by (simp add: sobel_kernel_gpu_def s32_def u32_def del: One_nat_def)
  have "kernel_loop [Finite False 1 0] 1 1 1 Gx Gy 0 ([NaN], []) 0 =
        kernel_loop [Finite False 1 0] 1 1 1 Gx Gy 0 ([Finite False 0 0], [(0, 0, 0), (0, 0, 0)]) 0"
    by (subst kernel_loop_revisit, subst kernel_loop_revisit) (simp del: One_nat_def)
  moreover have "kernel_loop [Finite False 1 0] 1 1 1 Gx Gy 0 ([NaN], []) 0 = None"
    by (rule kernel_loop_stride_zero) simp
  ultimately show ?thesis by (simp only: k simp_thms)
qed

text \<open>
  Claim C1, as amended. For a source buffer of \<open>n = rows * cols \<ge> 1\<close> samples and a launch
  shape with \<open>blocks \<ge> 1\<close>, \<open>threadsPerBlock \<ge> 1\<close> and \<open>n + blocks * threadsPerBlock \<le> 2\<^sup>3\<^sup>1\<close>,
  the CPU sweep, for every order of the row iterations that carries out each row once
  (every thread count and schedule), and the GPU dispatch, for every order of the units
  of the grid, leave the same buffer, whatever the destinations held before: the image
  of the evaluator's value at every \<open>(row, col)\<close>.
\<close>

theorem cpu_sweep_equals_gpu_dispatch:
  assumes "1 \<le> n" "1 \<le> blocks" "1 \<le> tpb" "n + tpb * blocks \<le> 2147483648"
    and "n = nrows * ncols" "0 < ncols"
    and "int (length s) = n" "int (length out) = n" "int (length d) = n"
    and "mset rs = mset [0..nrows - 1]" "mset us = mset (grid_units blocks tpb)"
  shows "do_sobel_filtering rs s out ncols nrows = Some (sobel_image s ncols nrows Gx Gy)
         \<and> map_option fst (launch_units s n nrows ncols Gx Gy blocks tpb us (d, [])) =
             Some (sobel_image s ncols nrows Gx Gy)
         \<and> map_option fst (launch blocks tpb s d n nrows ncols Gx Gy) =
             do_sobel_filtering rs s out ncols nrows"
proof -
  have g9: "length Gx = 9" "length Gy = 9" by (simp_all add: Gx_def Gy_def)
  have lim: "nrows * ncols < 2147483648" using assms(2-5) 
    by (smt (verit) mult_pos_pos)
  have rs: "set rs = {0..<nrows}" using assms(10) by (rule mset_upto_set)
  have cpu: "do_sobel_filtering rs s out ncols nrows = Some (sobel_image s ncols nrows Gx Gy)"
    unfolding do_sobel_filtering_def
    using sobel_rows_all [OF assms(6) lim _ _ rs] assms(5,7,8) by simp
  have gpu: "launch_units s n nrows ncols Gx Gy blocks tpb us (d, []) =
               Some (sobel_image s ncols nrows Gx Gy,
                     map (visit_of ncols) (concat (map (unit_indices n blocks tpb) us)))"
    by (rule launch_units_all(1) [OF assms(6,5,7) g9 assms(4,1,2,3,9,11)])
  have can: "launch_units s n nrows ncols Gx Gy blocks tpb (grid_units blocks tpb) (d, []) =
               Some (sobel_image s ncols nrows Gx Gy,
                     map (visit_of ncols) (concat (map (unit_indices n blocks tpb) (grid_units blocks tpb))))"
    by (rule launch_units_all(1) [OF assms(6,5,7) g9 assms(4,1,2,3,9) refl])
  show ?thesis by (simp add: cpu gpu launch_def can)
qed

theorem cpu_sweep_equals_gpu_dispatch_witness:
  "(1::int) \<le> 4 \<and> (1::int) \<le> 1 \<and> (1::int) \<le> 2 \<and> (4::int) + 2 * 1 \<le> 2147483648
   \<and> (4::int) = 2 * 2 \<and> (0::int) < 2
   \<and> int (length (replicate 4 (Finite False 1 0))) = 4
   \<and> int (length (replicate 4 NaN)) = 4 \<and> int (length (replicate 4 (Infinity True))) = 4
   \<and> mset [1, 0] = mset [0..2 - 1] \<and> mset [(0, 1), (0, 0)] = mset (grid_units 1 2)
   \<and> map_option fst (launch_units (replicate 4 (Finite False 1 0)) 4 2 2 Gx Gy 1 2 [(0, 1), (0, 0)]
                        (replicate 4 (Infinity True), [])) =
       do_sobel_filtering [1, 0] (replicate 4 (Finite False 1 0)) (replicate 4 NaN) 2 2"
proof -
  have g: "grid_units 1 2 = [(0, 0), (0, 1)]" by (simp add: grid_units_def upto.simps)
  have u: "[0..1] = [0, 1::int]" by (simp add: upto.simps)
  have h: "(1::int) \<le> 4" "(1::int) \<le> 1" "(1::int) \<le> 2" "(4::int) + 2 * 1 \<le> 2147483648"
    "(4::int) = 2 * 2" "(0::int) < 2"
    "int (length (replicate 4 (Finite False 1 0))) = 4"
    "int (length (replicate 4 NaN)) = 4" "int (length (replicate 4 (Infinity True))) = 4"
    "mset [1, 0] = mset [0..2 - 1]" "mset [(0, 1), (0, 0)] = mset (grid_units 1 2)"
    by (simp_all add: g u)
  note w = cpu_sweep_equals_gpu_dispatch [OF h]
  have e: "map_option fst (launch_units (replicate 4 (Finite False 1 0)) 4 2 2 Gx Gy 1 2 [(0, 1), (0, 0)]
                        (replicate 4 (Infinity True), [])) =
       do_sobel_filtering [1, 0] (replicate 4 (Finite False 1 0)) (replicate 4 NaN) 2 2"
    using w by simp
  show ?thesis by (intro conjI) (rule h e)+
qed

lemma sweep_1x1:
  "do_sobel_filtering [0] [Finite False 1 0] [NaN] 1 1 = Some [Finite False 0 0]"
  by code_simp

theorem cpu_sweep_equals_gpu_dispatch_counterexample:
  "launch 4194304 1024 [Finite False 1 0] [NaN] 1 1 1 Gx Gy = None
   \<and> do_sobel_filtering [0] [Finite False 1 0] [NaN] 1 1 = Some [Finite False 0 0]"
proof
  show "launch 4194304 1024 [Finite False 1 0] [NaN] 1 1 1 Gx Gy = None"
    by (rule launch_stride_zero) (simp_all add: u32_def)
  show "do_sobel_filtering [0] [Finite False 1 0] [NaN] 1 1 = Some [Finite False 0 0]"
    by (rule sweep_1x1)
qed

section \<open>The claims about the conversions\<close>

text \<open>
  Claim C7. For each byte \<open>b\<close> of 0, 1, 127, 128, 254, 255 the conversion of the drivers to
  the normalized domain, \<open>(float)b * 0.003921568627451\<close> stored as a \<open>float\<close>, followed by
  the conversion back, \<open>(unsigned char)(f * 255.0)\<close>, gives \<open>b\<close> again.
\<close>

theorem byte_round_trip:
  "float_to_byte (byte_to_float 0) = 0 \<and> float_to_byte (byte_to_float 1) = 1
   \<and> float_to_byte (byte_to_float 127) = 127 \<and> float_to_byte (byte_to_float 128) = 128
   \<and> float_to_byte (byte_to_float 254) = 254 \<and> float_to_byte (byte_to_float 255) = 255"
  by (simp only: byte_to_float_0 byte_to_float_1 byte_to_float_127 byte_to_float_128
      byte_to_float_254 byte_to_float_255 float_to_byte_0 float_to_byte_1 float_to_byte_127
      float_to_byte_128 float_to_byte_254 float_to_byte_255 simp_thms)

lemma valof_nonneg: "0 \<le> valof (Finite False m e)"
  by simp

text \<open>
  Claim C8. The output byte of a finite sample \<open>G \<ge> 0\<close> is the low eight bits of
  \<open>\<lfloor>G * 255\<rfloor>\<close>; the product by \<open>255.0\<close> is exact in \<open>double\<close> and nothing clamps \<open>G\<close> before
  it. So for \<open>G \<le> 1\<close> the byte is \<open>\<lfloor>G * 255\<rfloor>\<close>, and for \<open>G > 1\<close> it is \<open>\<lfloor>G * 255\<rfloor> mod 256\<close>, not
  255.
\<close>

theorem quantization_wraps:
  assumes "is_float binary32 (Finite False m e)"
  shows "float_to_byte (Finite False m e) = word_of_int \<lfloor>valof (Finite False m e) * 255\<rfloor>
         \<and> (valof (Finite False m e) \<le> 1 \<longrightarrow>
              uint (float_to_byte (Finite False m e)) = \<lfloor>valof (Finite False m e) * 255\<rfloor>)
         \<and> (1 < valof (Finite False m e) \<longrightarrow>
              uint (float_to_byte (Finite False m e)) = \<lfloor>valof (Finite False m e) * 255\<rfloor> mod 256)"
proof (intro conjI impI)
  let ?g = "Finite False m e"
  show f: "float_to_byte ?g = word_of_int \<lfloor>valof ?g * 255\<rfloor>"
    by (rule float_to_byte_floor [OF assms])
  have u: "uint (float_to_byte ?g) = \<lfloor>valof ?g * 255\<rfloor> mod 256"
    by (simp add: f uint_word_of_int)
  show "uint (float_to_byte ?g) = \<lfloor>valof ?g * 255\<rfloor> mod 256" by (rule u)
  assume le: "valof ?g \<le> 1"
  have "0 \<le> valof ?g * 255" using valof_nonneg [of m e] by simp
  then have lo: "0 \<le> \<lfloor>valof ?g * 255\<rfloor>" by simp
  have "valof ?g * 255 \<le> 255" using le by simp
  then have "\<lfloor>valof ?g * 255\<rfloor> \<le> 255" by (simp add: floor_le_iff)
  then show "uint (float_to_byte ?g) = \<lfloor>valof ?g * 255\<rfloor>" using lo u by simp
qed

lemma half_is_float: "is_float binary32 (Finite False 1 (- 1))"
  using bitlen_eqI [of 1 1] by (simp add: binary32_def)

lemma two_is_float: "is_float binary32 (Finite False 1 1)"
  using bitlen_eqI [of 1 1] by (simp add: binary32_def)

theorem quantization_wraps_witness:
  "is_float binary32 (Finite False 1 (- 1)) \<and> valof (Finite False 1 (- 1)) \<le> 1
   \<and> uint (float_to_byte (Finite False 1 (- 1))) = 127
   \<and> is_float binary32 (Finite False 1 1) \<and> 1 < valof (Finite False 1 1)
   \<and> uint (float_to_byte (Finite False 1 1)) = 254"
proof -
  have a: "valof (Finite False 1 (- 1)) \<le> 1" by simp
  have b: "1 < valof (Finite False 1 1)" by simp
  have fa: "\<lfloor>valof (Finite False 1 (- 1)) * 255\<rfloor> = 127" by (simp add: floor_eq_iff)
  have fb: "\<lfloor>valof (Finite False 1 1) * 255\<rfloor> = 510" by simp
  have c: "uint (float_to_byte (Finite False 1 (- 1))) = 127"
    using quantization_wraps [OF half_is_float] a fa by simp
  have d: "uint (float_to_byte (Finite False 1 1)) = 254"
    using quantization_wraps [OF two_is_float] b fb by simp
  show ?thesis by (intro conjI) (rule half_is_float two_is_float a b c d)+
qed

section \<open>The claims about the runs\<close>

lemma grid_units_empty:
  assumes "blocks \<le> 0 \<or> tpb \<le> 0"
  shows "grid_units blocks tpb = []"
proof -
  have "set (grid_units blocks tpb) = {}"
    using assms by (auto simp add: grid_units_set)
  then show ?thesis by simp
qed

lemma launch_no_units:
  assumes "blocks \<le> 0 \<or> tpb \<le> 0"
  shows "launch blocks tpb s d n nrows ncols gx gy = Some (d, [])"
  by (simp add: launch_def grid_units_empty [OF assms])

lemma white_byte: "float_to_byte (Finite False 1 0) = 255"
  by (rule float_to_byte_255)

lemma u32_nonneg: "0 \<le> u32 x"
  by (simp add: u32_def)

lemma main_gpu_no_units:
  assumes "input_file E = Some file" "0 \<le> ncols * nrows" "ncols * nrows < 2147483648"
    and "nat (ncols * nrows) \<le> length file"
    and "\<forall>k < 5. cuda_status E k = 0"
    and "output_open E" "nat (ncols * nrows) \<le> output_room E"
    and "av \<noteq> []" "u32 (av ! 0) = 0 \<or> (2 \<le> length av \<and> u32 (av ! 1) = 0)"
  shows "main_gpu E av ncols nrows =
           Exit 0 [Printf ('' Read data from the file %s '' @ newline) [Str input_fname],
                   Printf ('' GPU configuration: %d blocks, %d threads per block '' @ newline)
                     [Num (av ! 0), Num (if 2 \<le> length av then av ! 1 else 256)],
                   Printf ('' Wrote the output file %s '' @ newline) [Str output_fname]]
             (Some (replicate (nat (ncols * nrows)) 255))"
proof -
  have n: "s32 (ncols * nrows) = ncols * nrows" using assms(2,3) by (intro s32_id) linarith+
  have st: "filter (\<lambda>k. cuda_status E k \<noteq> 0) [0..<4] = []" using assms(5) by (simp add: filter_empty_conv)
  have s4: "cuda_status E 4 = 0" using assms(5) by simp
  have l1: "1 \<le> length av" using assms(8) by (cases av) simp_all
  let ?b = "u32 (av ! 0)" and ?t = "u32 (if 2 \<le> length av then av ! 1 else 256)"
  have "?b \<le> 0 \<or> ?t \<le> 0" using assms(9) by auto
  note la = launch_no_units [OF this]
  have m: "map float_to_byte (replicate k (Finite False 1 0)) = replicate k 255" for k
    by (simp add: white_byte del: One_nat_def)
  show ?thesis
    unfolding main_gpu_def Let_def n assms(1) option.case
    using assms(2,4,6,7) l1
    by (simp add: st s4 la m white_byte write_output_def del: One_nat_def)
qed

text \<open>
  Claim C9. The GPU driver fills the output buffer with \<open>1.0\<close> before the launch. A
  launch in which \<open>blocks\<close> or \<open>threadsPerBlock\<close> is 0 has no unit and leaves the destination
  as it is; then, when the input is read, the device calls succeed and the output file
  takes the bytes, the run ends with exit code 0 and every byte of the output file is 255.
\<close>

theorem empty_launch_leaves_white:
  assumes "input_file E = Some file" "0 \<le> ncols * nrows" "ncols * nrows < 2147483648"
    and "nat (ncols * nrows) \<le> length file"
    and "\<forall>k < 5. cuda_status E k = 0"
    and "output_open E" "nat (ncols * nrows) \<le> output_room E"
    and "av \<noteq> []" "u32 (av ! 0) = 0 \<or> (2 \<le> length av \<and> u32 (av ! 1) = 0)"
  shows "launch (u32 (av ! 0)) (u32 (if 2 \<le> length av then av ! 1 else 256)) s
           (replicate (nat (ncols * nrows)) (Finite False 1 0)) n nrows ncols Gx Gy =
           Some (replicate (nat (ncols * nrows)) (Finite False 1 0), [])
         \<and> main_gpu E av ncols nrows =
           Exit 0 [Printf ('' Read data from the file %s '' @ newline) [Str input_fname],
                   Printf ('' GPU configuration: %d blocks, %d threads per block '' @ newline)
                     [Num (av ! 0), Num (if 2 \<le> length av then av ! 1 else 256)],
                   Printf ('' Wrote the output file %s '' @ newline) [Str output_fname]]
             (Some (replicate (nat (ncols * nrows)) 255))"
proof
  have "u32 (av ! 0) \<le> 0 \<or> u32 (if 2 \<le> length av then av ! 1 else 256) \<le> 0"
    using assms(9) by auto
  then show "launch (u32 (av ! 0)) (u32 (if 2 \<le> length av then av ! 1 else 256)) s
           (replicate (nat (ncols * nrows)) (Finite False 1 0)) n nrows ncols Gx Gy =
           Some (replicate (nat (ncols * nrows)) (Finite False 1 0), [])"
    by (rule launch_no_units)
  show "main_gpu E av ncols nrows =
           Exit 0 [Printf ('' Read data from the file %s '' @ newline) [Str input_fname],
                   Printf ('' GPU configuration: %d blocks, %d threads per block '' @ newline)
                     [Num (av ! 0), Num (if 2 \<le> length av then av ! 1 else 256)],
                   Printf ('' Wrote the output file %s '' @ newline) [Str output_fname]]
             (Some (replicate (nat (ncols * nrows)) 255))"
    by (rule main_gpu_no_units [OF assms])
qed

theorem empty_launch_leaves_white_witness:
  "input_file example_env = Some [0, 255, 7, 200] \<and> (0::int) \<le> 2 * 2 \<and> (2::int) * 2 < 2147483648
   \<and> nat (2 * 2) \<le> length [0, 255, 7, 200 :: byte]
   \<and> output_open example_env \<and> nat (2 * 2) \<le> output_room example_env
   \<and> [0, 256 :: int] \<noteq> [] \<and> u32 ([0, 256] ! 0) = 0
   \<and> main_gpu example_env [0, 256] 2 2 =
         Exit 0 [Printf ('' Read data from the file %s '' @ newline) [Str input_fname],
                 Printf ('' GPU configuration: %d blocks, %d threads per block '' @ newline)
                   [Num 0, Num 256],
                 Printf ('' Wrote the output file %s '' @ newline) [Str output_fname]]
           (Some [255, 255, 255, 255])"
proof -
  have h: "input_file example_env = Some [0, 255, 7, 200]" "(0::int) \<le> 2 * 2"
    "(2::int) * 2 < 2147483648" "nat (2 * 2) \<le> length [0, 255, 7, 200 :: byte]"
    "\<forall>k < 5. cuda_status example_env k = 0"
    "output_open example_env" "nat (2 * 2) \<le> output_room example_env"
    "[0, 256 :: int] \<noteq> []" "u32 ([0, 256] ! 0) = 0 \<or> (2 \<le> length [0, 256 :: int] \<and> u32 ([0, 256] ! 1) = 0)"
    by (simp_all add: example_env_def u32_def)
  have z: "u32 ([0, 256] ! 0) = 0" by (simp add: u32_def)
  have r: "replicate (nat (2 * 2)) (255 :: byte) = [255, 255, 255, 255]"
    by (simp add: numeral_eq_Suc)
  have m: "main_gpu example_env [0, 256] 2 2 =
         Exit 0 [Printf ('' Read data from the file %s '' @ newline) [Str input_fname],
                 Printf ('' GPU configuration: %d blocks, %d threads per block '' @ newline)
                   [Num 0, Num 256],
                 Printf ('' Wrote the output file %s '' @ newline) [Str output_fname]]
           (Some [255, 255, 255, 255])"
    using empty_launch_leaves_white [OF h, THEN conjunct2] r by simp
  show ?thesis by (intro conjI) (rule h(1-4,6-8) z m)+
qed

lemma main_cpu_run:
  assumes "input_file E = Some file" "0 < ncols" "0 < nrows" "ncols * nrows < 2147483648"
    and "nat (ncols * nrows) \<le> length file"
    and "\<forall>t \<in> set thread_counts. mset (row_order E t) = mset [0..nrows - 1]"
  shows "main_cpu E ncols nrows =
           write_output E
             (Printf ('' Read data from the file %s '' @ newline) [Str input_fname]
                # map Cout_threads thread_counts)
             (ncols * nrows)
             (sobel_image (map byte_to_float (take (nat (ncols * nrows)) file)) ncols nrows Gx Gy)"
proof -
  have pos: "0 < ncols * nrows" using assms(2,3) by simp
  have n: "s32 (ncols * nrows) = ncols * nrows" using pos assms(4) by (intro s32_id) linarith+
  have lim: "nrows * ncols < 2147483648" using assms(4) by (simp add: mult.commute)
  let ?inp = "map byte_to_float (take (nat (ncols * nrows)) file)"
  have li: "int (length ?inp) = nrows * ncols" using assms(5) pos by (simp add: mult.commute)
  have lo: "int (length (map (heap E) [0..<nat (ncols * nrows)])) = nrows * ncols"
    using pos by (simp add: mult.commute)
  have ne: "map (row_order E) thread_counts \<noteq> []" by (simp add: thread_counts_def)
  have ro: "\<forall>rs \<in> set (map (row_order E) thread_counts). set rs = {0..<nrows}"
    using assms(6) mset_upto_set by auto
  note sw = sweeps_all [OF assms(2) lim li ne ro lo]
  show ?thesis
    unfolding main_cpu_def Let_def n assms(1) option.case sw
    using pos assms(5) by simp
qed

lemma main_gpu_run:
  assumes "input_file E = Some file" "0 < ncols" "0 < nrows"
    and "nat (ncols * nrows) \<le> length file"
    and "\<forall>k < 5. cuda_status E k = 0"
    and "nb = (if 1 \<le> length av then av ! 0 else 1)"
    and "nt = (if 2 \<le> length av then av ! 1 else 256)"
    and "1 \<le> nb" "1 \<le> nt" "ncols * nrows + nt * nb \<le> 2147483648"
  shows "main_gpu E av ncols nrows =
           write_output E
             [Printf ('' Read data from the file %s '' @ newline) [Str input_fname],
              Printf ('' GPU configuration: %d blocks, %d threads per block '' @ newline) [Num nb, Num nt]]
             (ncols * nrows)
             (sobel_image (map byte_to_float (take (nat (ncols * nrows)) file)) ncols nrows Gx Gy)"
proof -
  have pos: "0 < ncols * nrows" using assms(2,3) by simp
  have prod: "0 < nt * nb" using assms(8,9) by simp
  have lim: "ncols * nrows < 2147483648" using assms(10) prod by linarith
  have n: "s32 (ncols * nrows) = ncols * nrows" using pos lim by (intro s32_id) linarith+
  have "nb \<le> nt * nb" "nt \<le> nt * nb" using assms(8,9) by simp_all
  then have b: "nb < 4294967296" "nt < 4294967296" using assms(10) pos by linarith+
  have ub: "u32 nb = nb" using assms(8) b(1) by (intro u32_id) linarith+
  have ut: "u32 nt = nt" using assms(9) b(2) by (intro u32_id) linarith+
  have st: "filter (\<lambda>k. cuda_status E k \<noteq> 0) [0..<4] = []" using assms(5) by (simp add: filter_empty_conv)
  have s4: "cuda_status E 4 = 0" using assms(5) by simp
  let ?inp = "map byte_to_float (take (nat (ncols * nrows)) file)"
  let ?out = "replicate (nat (ncols * nrows)) (Finite False 1 0)"
  have li: "int (length ?inp) = ncols * nrows" using assms(4) pos by simp
  have lo: "int (length ?out) = ncols * nrows" using pos by simp
  have g9: "length Gx = 9" "length Gy = 9" by (simp_all add: Gx_def Gy_def)
  have one: "1 \<le> ncols * nrows" using pos by simp
  have eq: "ncols * nrows = nrows * ncols" by (simp add: mult.commute)
  note la = launch_units_all(1) [OF assms(2) eq li g9 assms(10) one assms(8,9) lo refl]
  show ?thesis
    unfolding main_gpu_def Let_def n assms(1) option.case assms(6,7) [symmetric] ub ut launch_def la
    using pos assms(4) by (simp add: st s4 del: One_nat_def)
qed

lemma write_output_short:
  assumes "output_open E" "output_room E < nat nvalues"
  shows "write_output E msgs nvalues out =
           Exit 1 (msgs @ [Printf (''Error writing output file. '' @ newline) []])
             (Some (take (output_room E) (map float_to_byte out)))"
  using assms by (simp add: write_output_def)

lemma main_cpu_missing:
  "input_file E = None \<Longrightarrow>
   main_cpu E ncols nrows =
     Exit 1 [Printf ('' Error opening the input file: %s '' @ newline) [Str input_fname]] None"
  by (simp add: main_cpu_def)

lemma main_short_read:
  assumes "input_file E = Some file" "0 \<le> ncols * nrows" "ncols * nrows < 2147483648"
    and "length file < nat (ncols * nrows)"
  shows "main_cpu E ncols nrows = Exit 1 [Printf (''Error reading input file. '' @ newline) []] None"
    and "main_gpu E av ncols nrows = Exit 1 [Printf (''Error reading input file. '' @ newline) []] None"
proof -
  have n: "s32 (ncols * nrows) = ncols * nrows" using assms(2,3) by (intro s32_id) linarith+
  show "main_cpu E ncols nrows = Exit 1 [Printf (''Error reading input file. '' @ newline) []] None"
    unfolding main_cpu_def Let_def n assms(1) option.case using assms(2,4) by simp
  show "main_gpu E av ncols nrows = Exit 1 [Printf (''Error reading input file. '' @ newline) []] None"
    unfolding main_gpu_def Let_def n assms(1) option.case using assms(2,4) by simp
qed

text \<open>
  Claim C6, as amended. When the input file cannot be opened, the CPU program prints the
  error with the path of the file and exits with code 1. When the file holds fewer than
  \<open>rows * cols\<close> bytes, either program prints \<open>Error reading input file.\<close>, without the
  path, and exits with code 1. When the output file is opened but takes fewer than
  \<open>rows * cols\<close> bytes, either program prints \<open>Error writing output file.\<close> after its other
  lines and exits with code 1.
\<close>

theorem io_failures_exit_1:
  "(input_file E = None \<longrightarrow>
      main_cpu E ncols nrows =
        Exit 1 [Printf ('' Error opening the input file: %s '' @ newline) [Str input_fname]] None)
   \<and> (input_file E = Some fbytes \<and> 0 \<le> ncols * nrows \<and> ncols * nrows < 2147483648
        \<and> length fbytes < nat (ncols * nrows) \<longrightarrow>
      main_cpu E ncols nrows = Exit 1 [Printf (''Error reading input file. '' @ newline) []] None
      \<and> main_gpu E av ncols nrows = Exit 1 [Printf (''Error reading input file. '' @ newline) []] None)
   \<and> (input_file E = Some fbytes \<and> 0 < ncols \<and> 0 < nrows \<and> ncols * nrows < 2147483648
        \<and> nat (ncols * nrows) \<le> length fbytes
        \<and> (\<forall>t \<in> set thread_counts. mset (row_order E t) = mset [0..nrows - 1])
        \<and> output_open E \<and> output_room E < nat (ncols * nrows) \<longrightarrow>
      main_cpu E ncols nrows =
        Exit 1 (Printf ('' Read data from the file %s '' @ newline) [Str input_fname]
                  # map Cout_threads thread_counts
                  @ [Printf (''Error writing output file. '' @ newline) []])
          (Some (take (output_room E) (map float_to_byte
             (sobel_image (map byte_to_float (take (nat (ncols * nrows)) fbytes)) ncols nrows Gx Gy)))))
   \<and> (input_file E = Some fbytes \<and> 0 < ncols \<and> 0 < nrows
        \<and> nat (ncols * nrows) \<le> length fbytes \<and> (\<forall>k < 5. cuda_status E k = 0)
        \<and> nb = (if 1 \<le> length av then av ! 0 else 1) \<and> nt = (if 2 \<le> length av then av ! 1 else 256)
        \<and> 1 \<le> nb \<and> 1 \<le> nt \<and> ncols * nrows + nt * nb \<le> 2147483648
        \<and> output_open E \<and> output_room E < nat (ncols * nrows) \<longrightarrow>
      main_gpu E av ncols nrows =
        Exit 1 [Printf ('' Read data from the file %s '' @ newline) [Str input_fname],
                Printf ('' GPU configuration: %d blocks, %d threads per block '' @ newline) [Num nb, Num nt],
                Printf (''Error writing output file. '' @ newline) []]
          (Some (take (output_room E) (map float_to_byte
             (sobel_image (map byte_to_float (take (nat (ncols * nrows)) fbytes)) ncols nrows Gx Gy)))))"
proof (intro conjI impI)
  assume "input_file E = None"
  then show "main_cpu E ncols nrows =
        Exit 1 [Printf ('' Error opening the input file: %s '' @ newline) [Str input_fname]] None"
    by (rule main_cpu_missing)
next
  assume a: "input_file E = Some fbytes \<and> 0 \<le> ncols * nrows \<and> ncols * nrows < 2147483648
        \<and> length fbytes < nat (ncols * nrows)"
  then have h: "input_file E = Some fbytes" "0 \<le> ncols * nrows" "ncols * nrows < 2147483648"
    "length fbytes < nat (ncols * nrows)" by simp_all
  show "main_cpu E ncols nrows = Exit 1 [Printf (''Error reading input file. '' @ newline) []] None"
    by (rule main_short_read(1) [OF h])
  show "main_gpu E av ncols nrows = Exit 1 [Printf (''Error reading input file. '' @ newline) []] None"
    by (rule main_short_read(2) [OF h])
next
  assume a: "input_file E = Some fbytes \<and> 0 < ncols \<and> 0 < nrows \<and> ncols * nrows < 2147483648
        \<and> nat (ncols * nrows) \<le> length fbytes
        \<and> (\<forall>t \<in> set thread_counts. mset (row_order E t) = mset [0..nrows - 1])
        \<and> output_open E \<and> output_room E < nat (ncols * nrows)"
  then have h: "input_file E = Some fbytes" "0 < ncols" "0 < nrows" "ncols * nrows < 2147483648"
    "nat (ncols * nrows) \<le> length fbytes"
    "\<forall>t \<in> set thread_counts. mset (row_order E t) = mset [0..nrows - 1]"
    and w: "output_open E" "output_room E < nat (ncols * nrows)" by simp_all
  show "main_cpu E ncols nrows =
        Exit 1 (Printf ('' Read data from the file %s '' @ newline) [Str input_fname]
                  # map Cout_threads thread_counts
                  @ [Printf (''Error writing output file. '' @ newline) []])
          (Some (take (output_room E) (map float_to_byte
             (sobel_image (map byte_to_float (take (nat (ncols * nrows)) fbytes)) ncols nrows Gx Gy))))"
    by (simp only: main_cpu_run [OF h] write_output_short [OF w] append_Cons)
next
  assume a: "input_file E = Some fbytes \<and> 0 < ncols \<and> 0 < nrows
        \<and> nat (ncols * nrows) \<le> length fbytes \<and> (\<forall>k < 5. cuda_status E k = 0)
        \<and> nb = (if 1 \<le> length av then av ! 0 else 1) \<and> nt = (if 2 \<le> length av then av ! 1 else 256)
        \<and> 1 \<le> nb \<and> 1 \<le> nt \<and> ncols * nrows + nt * nb \<le> 2147483648
        \<and> output_open E \<and> output_room E < nat (ncols * nrows)"
  then have h: "input_file E = Some fbytes" "0 < ncols" "0 < nrows"
    "nat (ncols * nrows) \<le> length fbytes" "\<forall>k < 5. cuda_status E k = 0"
    "nb = (if 1 \<le> length av then av ! 0 else 1)" "nt = (if 2 \<le> length av then av ! 1 else 256)"
    "1 \<le> nb" "1 \<le> nt" "ncols * nrows + nt * nb \<le> 2147483648"
    and w: "output_open E" "output_room E < nat (ncols * nrows)" by blast+
  show "main_gpu E av ncols nrows =
        Exit 1 [Printf ('' Read data from the file %s '' @ newline) [Str input_fname],
                Printf ('' GPU configuration: %d blocks, %d threads per block '' @ newline) [Num nb, Num nt],
                Printf (''Error writing output file. '' @ newline) []]
          (Some (take (output_room E) (map float_to_byte
             (sobel_image (map byte_to_float (take (nat (ncols * nrows)) fbytes)) ncols nrows Gx Gy))))"
    by (simp only: main_gpu_run [OF h] write_output_short [OF w] append_Cons append_Nil)
qed

theorem io_failures_exit_1_witness:
  "input_file (example_env\<lparr>input_file := None\<rparr>) = None
   \<and> main_cpu (example_env\<lparr>input_file := None\<rparr>) 2 2 =
        Exit 1 [Printf ('' Error opening the input file: %s '' @ newline) [Str input_fname]] None
   \<and> input_file (example_env\<lparr>input_file := Some [0]\<rparr>) = Some [0]
   \<and> length [0 :: byte] < nat (2 * 2)
   \<and> main_cpu (example_env\<lparr>input_file := Some [0]\<rparr>) 2 2 =
        Exit 1 [Printf (''Error reading input file. '' @ newline) []] None
   \<and> main_gpu (example_env\<lparr>input_file := Some [0]\<rparr>) [] 2 2 =
        Exit 1 [Printf (''Error reading input file. '' @ newline) []] None
   \<and> output_open (example_env\<lparr>output_room := 2\<rparr>)
   \<and> output_room (example_env\<lparr>output_room := 2\<rparr>) < nat (2 * 2)
   \<and> main_cpu (example_env\<lparr>output_room := 2\<rparr>) 2 2 =
        Exit 1 (Printf ('' Read data from the file %s '' @ newline) [Str input_fname]
                  # map Cout_threads thread_counts
                  @ [Printf (''Error writing output file. '' @ newline) []])
          (Some (take 2 (map float_to_byte
             (sobel_image (map byte_to_float (take (nat (2 * 2)) [0, 255, 7, 200])) 2 2 Gx Gy))))
   \<and> main_gpu (example_env\<lparr>output_room := 2\<rparr>) [1, 2] 2 2 =
        Exit 1 [Printf ('' Read data from the file %s '' @ newline) [Str input_fname],
                Printf ('' GPU configuration: %d blocks, %d threads per block '' @ newline) [Num 1, Num 2],
                Printf (''Error writing output file. '' @ newline) []]
          (Some (take 2 (map float_to_byte
             (sobel_image (map byte_to_float (take (nat (2 * 2)) [0, 255, 7, 200])) 2 2 Gx Gy))))"
proof -
  have u: "[0..1] = [0, 1::int]" by (simp add: upto.simps)
  have a0: "input_file (example_env\<lparr>input_file := None\<rparr>) = None" by simp
  have a: "main_cpu (example_env\<lparr>input_file := None\<rparr>) 2 2 =
        Exit 1 [Printf ('' Error opening the input file: %s '' @ newline) [Str input_fname]] None"
    using io_failures_exit_1 [where E = "example_env\<lparr>input_file := None\<rparr>" and ncols = 2 and nrows = 2,
        THEN conjunct1] a0 by blast
  have b0: "input_file (example_env\<lparr>input_file := Some [0]\<rparr>) = Some [0]"
    "length [0 :: byte] < nat (2 * 2)" by simp_all
  have b: "main_cpu (example_env\<lparr>input_file := Some [0]\<rparr>) 2 2 =
             Exit 1 [Printf (''Error reading input file. '' @ newline) []] None
           \<and> main_gpu (example_env\<lparr>input_file := Some [0]\<rparr>) [] 2 2 =
             Exit 1 [Printf (''Error reading input file. '' @ newline) []] None"
    using io_failures_exit_1 [where E = "example_env\<lparr>input_file := Some [0]\<rparr>" and ncols = 2
        and nrows = 2 and fbytes = "[0]" and av = "[]", THEN conjunct2, THEN conjunct1] b0
    by simp
  have c0: "output_open (example_env\<lparr>output_room := 2\<rparr>)"
    "output_room (example_env\<lparr>output_room := 2\<rparr>) < nat (2 * 2)"
    "input_file (example_env\<lparr>output_room := 2\<rparr>) = Some [0, 255, 7, 200]"
    "\<forall>t \<in> set thread_counts. mset (row_order (example_env\<lparr>output_room := 2\<rparr>) t) = mset [0..2 - 1]"
    "\<forall>k < 5. cuda_status (example_env\<lparr>output_room := 2\<rparr>) k = 0"
    by (simp_all add: example_env_def u)
  have c: "main_cpu (example_env\<lparr>output_room := 2\<rparr>) 2 2 =
        Exit 1 (Printf ('' Read data from the file %s '' @ newline) [Str input_fname]
                  # map Cout_threads thread_counts
                  @ [Printf (''Error writing output file. '' @ newline) []])
          (Some (take 2 (map float_to_byte
             (sobel_image (map byte_to_float (take (nat (2 * 2)) [0, 255, 7, 200])) 2 2 Gx Gy))))"
    using io_failures_exit_1 [where E = "example_env\<lparr>output_room := 2\<rparr>" and ncols = 2
        and nrows = 2 and fbytes = "[0, 255, 7, 200]",
        THEN conjunct2, THEN conjunct2, THEN conjunct1] c0
    by simp
  have d: "main_gpu (example_env\<lparr>output_room := 2\<rparr>) [1, 2] 2 2 =
        Exit 1 [Printf ('' Read data from the file %s '' @ newline) [Str input_fname],
                Printf ('' GPU configuration: %d blocks, %d threads per block '' @ newline) [Num 1, Num 2],
                Printf (''Error writing output file. '' @ newline) []]
          (Some (take 2 (map float_to_byte
             (sobel_image (map byte_to_float (take (nat (2 * 2)) [0, 255, 7, 200])) 2 2 Gx Gy))))"
    using io_failures_exit_1 [where E = "example_env\<lparr>output_room := 2\<rparr>" and ncols = 2
        and nrows = 2 and fbytes = "[0, 255, 7, 200]" and av = "[1, 2]" and nb = 1 and nt = 2,
        THEN conjunct2, THEN conjunct2, THEN conjunct2] c0
    by simp
  show ?thesis
    by (intro conjI) (rule a0 a b0 b [THEN conjunct1] b [THEN conjunct2] c0(1,2) c d)+
qed

theorem io_failures_exit_1_counterexample:
  "main_gpu (example_env\<lparr>input_file := None\<rparr>) [] 7112 5146 = Crash []
   \<and> main_cpu (example_env\<lparr>input_file := Some []\<rparr>) 7112 5146 =
       Exit 1 [Printf (''Error reading input file. '' @ newline) []] None"
  by (simp add: main_gpu_def main_cpu_def example_env_def s32_def)

end
